theory Spec2Isabelle
  imports Complex_Main "HOL-Library.Char_ord" "HOL-Library.List_Lexorder"
begin

section \<open>System catalogs\<close>

text \<open>
  The three catalogs that the query of \<^verbatim>\<open>tableColumns\<close> reads, each as the list of its
  rows with the columns the query uses. The six selected columns of \<^verbatim>\<open>pg_attribute\<close> are
  the row type of the result.
\<close>

record AttributeRow =
  attnum :: int
  attname :: string
  atttypid :: int
  attnotnull :: bool
  atthasdef :: bool
  attisdropped :: bool

record pg_attribute = AttributeRow +
  attrelid :: int

record pg_class =
  oid :: int
  relname :: string
  relnamespace :: int
  relkind :: char

record pg_namespace =
  oid :: int
  nspname :: string

record Catalog =
  pg_attribute :: "pg_attribute list"
  pg_class :: "pg_class list"
  pg_namespace :: "pg_namespace list"

section \<open>Data model\<close>

text \<open>
  Modelled from the spec: the record types of \<^verbatim>\<open>./types\<close> and \<^verbatim>\<open>./preprocess\<close> are
  imported by the sources but not among them. \<^verbatim>\<open>TypeRef\<close> is \<^verbatim>\<open>{ oid, isArray, elementOid? }\<close>,
  \<^verbatim>\<open>NamedValue\<close> is \<^verbatim>\<open>{ name, type, nullable }\<close>, \<^verbatim>\<open>StatementDescription\<close> is
  \<^verbatim>\<open>{ sql, params, columns, rowCount }\<close> with \<^verbatim>\<open>rowCount\<close> one of
  \<^verbatim>\<open>zero | one | zeroOrOne | many\<close>, and the preprocessor's output is \<^verbatim>\<open>{ sql, paramNames }\<close>.
  The code reads \<^verbatim>\<open>param.type.oid\<close>, \<^verbatim>\<open>param.name\<close>, \<^verbatim>\<open>param.nullable\<close>, \<^verbatim>\<open>stmt.params\<close>,
  \<^verbatim>\<open>stmt.columns\<close>, \<^verbatim>\<open>stmt.rowCount\<close> and \<^verbatim>\<open>stmt.sql\<close>. A TypeScript \<^verbatim>\<open>string\<close> is a
  \<^typ>\<open>string\<close> here, a \<^verbatim>\<open>number\<close> holding an identifier an \<^typ>\<open>int\<close>.
\<close>

record Preprocessed =
  sql :: string
  paramNames :: "string list"

record TypeRef =
  oid :: int
  isArray :: bool
  elementOid :: "int option"

record NamedValue =
  name :: string
  type :: TypeRef
  nullable :: bool

datatype RowCount = Zero | One | ZeroOrOne | Many

record StatementDescription =
  sql :: string
  params :: "NamedValue list"
  columns :: "NamedValue list"
  rowCount :: RowCount

text \<open>
  Modelled from the spec: a \<^verbatim>\<open>Transform\<close> is \<^verbatim>\<open>{ targetType, serializeFunctionName,
  optionalImport? }\<close>; the code names the fields \<^verbatim>\<open>tsType\<close>, \<^verbatim>\<open>serializeFunc\<close> and \<^verbatim>\<open>import\<close>.
\<close>

record Transform =
  tsType :: string
  serializeFunc :: string
  import :: "string option"

text \<open>
  The type client of \<^verbatim>\<open>./tstype\<close>, as the record of the methods the code generator calls.
  A \<^verbatim>\<open>Task\<close> returned by a method is modelled by the value it yields; the transform table
  (a \<^verbatim>\<open>Map\<close>) is an association list in insertion order.
\<close>

record TypeClient =
  columnType :: "NamedValue \<Rightarrow> string \<times> string"
  tsType :: "TypeRef \<Rightarrow> bool \<Rightarrow> string"
  getTransforms :: "(int \<times> Transform) list"
  getTransform :: "int \<Rightarrow> Transform option"
  isArray :: "int \<Rightarrow> bool"

section \<open>Helpers of the JavaScript runtime\<close>

text \<open>\<^verbatim>\<open>Array.prototype.join\<close>.\<close>

fun join :: "string \<Rightarrow> string list \<Rightarrow> string" where
  "join sep [] = []"
| "join sep [x] = x"
| "join sep (x # y # ys) = x @ sep @ join sep (y # ys)"

text \<open>
  \<^verbatim>\<open>Set.prototype.add\<close> on a set kept as the list of its elements in insertion order.
\<close>

definition set_add :: "'a \<Rightarrow> 'a list \<Rightarrow> 'a list" where
  "set_add x s = (if x \<in> set s then s else s @ [x])"

text \<open>
  \<^verbatim>\<open>String.prototype.replace\<close> with a one-character string pattern: only the first
  occurrence is replaced.
\<close>

fun replaceFirst :: "char \<Rightarrow> string \<Rightarrow> string \<Rightarrow> string" where
  "replaceFirst c r [] = []"
| "replaceFirst c r (x # xs) = (if x = c then r @ xs else x # replaceFirst c r xs)"

definition isDigit :: "char \<Rightarrow> bool" where
  "isDigit c = (c \<in> set ''0123456789'')"

text \<open>
  \<^verbatim>\<open>name.match(/\$\d+/)\<close> is not null: the regular expression is not anchored, so it asks
  for a dollar sign directly followed by a digit somewhere in the name.
\<close>

fun matchDollarDigits :: "string \<Rightarrow> bool" where
  "matchDollarDigits [] = False"
| "matchDollarDigits (c # cs) =
     ((c = CHR ''$'' \<and> (case cs of [] \<Rightarrow> False | d # _ \<Rightarrow> isDigit d)) \<or> matchDollarDigits cs)"

definition digitChar :: "nat \<Rightarrow> char" where
  "digitChar n = ''0123456789'' ! (n mod 10)"

text \<open>The decimal text of a natural number, as JavaScript prints an array index.\<close>

function string_of_nat :: "nat \<Rightarrow> string" where
  "string_of_nat n =
     (if n < 10 then [digitChar n] else string_of_nat (n div 10) @ [digitChar (n mod 10)])"
  by pat_completeness auto
termination
  by (relation "measure id") auto

declare string_of_nat.simps [simp del]

text \<open>
  \<^verbatim>\<open>traverseATs\<close> of \<^verbatim>\<open>./fp-utils\<close> runs a task for every element of an array, in order,
  and collects the results; with tasks modelled by their values it is \<^const>\<open>map\<close>.
\<close>

definition traverseATs :: "'a list \<Rightarrow> ('a \<Rightarrow> 'b) \<Rightarrow> 'b list" where
  "traverseATs xs f = map f xs"

section \<open>Warnings accumulator\<close>

text \<open>
  Modelled from the spec: the module \<^verbatim>\<open>./Warn\<close> is not among the sources (only the calls
  \<^verbatim>\<open>Warn.split\<close> and \<^verbatim>\<open>Warn.format\<close> in \<^verbatim>\<open>cli.ts\<close> are). A \<^verbatim>\<open>Warn<T>\<close> pairs a value of
  type \<^verbatim>\<open>T\<close> with an ordered sequence of diagnostic strings. \<^verbatim>\<open>pure(value)\<close> is the value
  with no diagnostics, \<^verbatim>\<open>map\<close> changes the value only, the binary combinator merges the
  diagnostic lists of two \<^verbatim>\<open>Warn\<close> values in the order the sub-analyses were performed
  (the first argument's before the second's), and splitting yields the bare value and
  the diagnostics separately.
\<close>

datatype 'a Warn = Warn (payload: 'a) (warnings: "string list")

definition Warn_pure :: "'a \<Rightarrow> 'a Warn" where
  "Warn_pure v = Warn v []"

definition Warn_map :: "('a \<Rightarrow> 'b) \<Rightarrow> 'a Warn \<Rightarrow> 'b Warn" where
  "Warn_map f w = Warn (f (payload w)) (warnings w)"

definition Warn_combine :: "('a \<Rightarrow> 'b \<Rightarrow> 'c) \<Rightarrow> 'a Warn \<Rightarrow> 'b Warn \<Rightarrow> 'c Warn" where
  "Warn_combine f a b = Warn (f (payload a) (payload b)) (warnings a @ warnings b)"

definition Warn_split :: "'a Warn \<Rightarrow> 'a \<times> string list" where
  "Warn_split w = (payload w, warnings w)"

text \<open>
  Modelled from the spec: the analysis that uses the accumulator (\<^verbatim>\<open>./infer\<close>) is not among
  the sources. The binary combinator threads the diagnostics of every check up to the
  top-level result, in the order the sub-analyses are performed, which is the traversal
  order of the syntax tree. A syntax tree is a sub-expression that is checked by itself,
  or two parts of which the first stands before the second in the source; the analysis
  of a tree combines the analysis of its first part with that of its second.
\<close>

datatype 'e syntaxTree = Expr 'e | Parts "'e syntaxTree" "'e syntaxTree"

fun subExpressions :: "'e syntaxTree \<Rightarrow> 'e list" where
  "subExpressions (Expr e) = [e]"
| "subExpressions (Parts l r) = subExpressions l @ subExpressions r"

fun analyse :: "('e \<Rightarrow> 'r Warn) \<Rightarrow> 'e syntaxTree \<Rightarrow> 'r syntaxTree Warn" where
  "analyse check (Expr e) = Warn_map Expr (check e)"
| "analyse check (Parts l r) = Warn_combine Parts (analyse check l) (analyse check r)"

section \<open>Tasks\<close>

text \<open>
  A \<^verbatim>\<open>Task<A>\<close> of fp-ts is a function returning a promise of an \<^verbatim>\<open>A\<close>; a
  \<^verbatim>\<open>TaskEither<E, A>\<close> is a \<^verbatim>\<open>Task<Either<E, A>>\<close>. The promise is either resolved with a
  value or rejected with what was thrown while the task ran. A task is a function from
  the state of the world outside the process (the connection and the database behind
  it) to its outcome and the state it leaves.
\<close>

datatype 'a outcome = Rejected string | Resolved 'a

type_synonym ('a, 'w) Task = "'w \<Rightarrow> 'a outcome \<times> 'w"



text \<open>\<^verbatim>\<open>Task.map(f)(fa)\<close> is \<^verbatim>\<open>() => fa().then(f)\<close>: a rejection of \<^verbatim>\<open>fa\<close> stays one.\<close>

definition Task_map :: "('a \<Rightarrow> 'b) \<Rightarrow> ('a, 'w) Task \<Rightarrow> ('b, 'w) Task" where
  "Task_map f t =
     (\<lambda>w. case t w of
             (Rejected x, w') \<Rightarrow> (Rejected x, w')
           | (Resolved a, w') \<Rightarrow> (Resolved (f a), w'))"



section \<open>Clients\<close>

text \<open>
  Modelled from the spec: the schema client of \<^verbatim>\<open>./schema\<close> is not among the sources. The
  catalog facts are cached per connection: per (schema, table) the columns with their
  \<^verbatim>\<open>{ notNull, hasDefault }\<close> flags, populated lazily and retained for the connection's
  lifetime. A schema client made by \<^verbatim>\<open>schemaClient(postgresClient)\<close> starts with an empty
  cache.
\<close>

record ColumnFacts =
  notNull :: bool
  hasDefault :: bool

record 'pg SchemaClient =
  connection :: 'pg
  tableCache :: "((string \<times> string) \<times> (string \<times> ColumnFacts) list) list"

definition schemaClient :: "'pg \<Rightarrow> 'pg SchemaClient" where
  "schemaClient postgresClient = \<lparr>connection = postgresClient, tableCache = []\<rparr>"

record 'pg Clients =
  postgres :: 'pg
  schema :: "'pg SchemaClient"
  types :: TypeClient

datatype CodegenTarget = pg | postgres

text \<open>
  \<^verbatim>\<open>clearCache\<close> of \<^verbatim>\<open>clients.ts\<close>. The constructor \<^verbatim>\<open>typeClient\<close> of \<^verbatim>\<open>./tstype\<close> is not
  among the sources and is a parameter: a task that builds a type client from the
  transform table and the connection.
\<close>

definition clearCache ::
  "((int \<times> Transform) list \<Rightarrow> 'pg \<Rightarrow> (TypeClient, 'w) Task) \<Rightarrow> 'pg Clients \<Rightarrow> ('pg Clients, 'w) Task" where
  "clearCache typeClient clients =
     Task_map (\<lambda>types'. clients\<lparr>types := types'\<rparr>)
       (typeClient (getTransforms (types clients)) (Clients.postgres clients))"

section \<open>Code generator\<close>

subsection \<open>validateStatement\<close>

text \<open>
  The body of the \<^verbatim>\<open>forEach\<close> callback, on the pair of the two sets \<^verbatim>\<open>columnNames\<close> and
  \<^verbatim>\<open>conflicts\<close>.
\<close>

definition validate_step ::
  "string list \<times> string list \<Rightarrow> NamedValue \<Rightarrow> string list \<times> string list" where
  "validate_step st col =
     (case st of (columnNames, conflicts) \<Rightarrow>
        if name col \<in> set columnNames then (columnNames, set_add (name col) conflicts)
        else (set_add (name col) columnNames, conflicts))"

text \<open>
  \<^verbatim>\<open>Either.left\<close> is \<^const>\<open>Inl\<close>, \<^verbatim>\<open>Either.right\<close> is \<^const>\<open>Inr\<close>. The default \<^verbatim>\<open>sort()\<close>
  orders strings by their code units, which is the lexicographic order of \<^typ>\<open>string\<close>.
\<close>

definition validateStatement :: "StatementDescription \<Rightarrow> string + StatementDescription" where
  "validateStatement stmt =
     (case foldl validate_step ([], []) (columns stmt) of (columnNames, conflicts) \<Rightarrow>
        if length conflicts \<noteq> 0
        then Inl (''Duplicate output columns: '' @ join '', '' (sort conflicts))
        else Inr stmt)"

subsection \<open>Pieces of generateTypeScript\<close>

definition hasOnlyPositionalParams :: "StatementDescription \<Rightarrow> bool" where
  "hasOnlyPositionalParams stmt = list_all (\<lambda>param. matchDollarDigits (name param)) (params stmt)"

definition stringLiteral :: "string \<Rightarrow> string" where
  "stringLiteral str =
     [CHR 0x27] @
     replaceFirst (CHR 0x27) [CHR 0x5C, CHR 0x27]
       (replaceFirst (CHR 0x5C) [CHR 0x5C, CHR 0x5C] str) @
     [CHR 0x27]"

definition columnType :: "TypeClient \<Rightarrow> NamedValue \<Rightarrow> string" where
  "columnType types' column =
     (case TypeClient.columnType types' column of
        (name', type') \<Rightarrow> stringLiteral name' @ '': '' @ type')"

text \<open>The local constant \<^verbatim>\<open>rowType\<close> of \<^verbatim>\<open>funcReturnType\<close>.\<close>

definition rowType :: "TypeClient \<Rightarrow> StatementDescription \<Rightarrow> string" where
  "rowType types' stmt =
     ''{ '' @ join ''; '' (traverseATs (columns stmt) (columnType types')) @ '' }''"

definition funcReturnType :: "TypeClient \<Rightarrow> StatementDescription \<Rightarrow> string" where
  "funcReturnType types' stmt =
     (case rowCount stmt of
        Zero \<Rightarrow> ''number''
      | One \<Rightarrow> rowType types' stmt
      | ZeroOrOne \<Rightarrow> rowType types' stmt @ '' | null''
      | Many \<Rightarrow> ''Array<'' @ rowType types' stmt @ ''>'')"

definition outputValue :: "CodegenTarget \<Rightarrow> StatementDescription \<Rightarrow> string" where
  "outputValue target stmt =
     (let (rows, count) =
            (case target of
               pg \<Rightarrow> (''result.rows'', ''result.rowCount'')
             | postgres \<Rightarrow> (''result'', ''result.count''))
      in case rowCount stmt of
           Zero \<Rightarrow> count
         | One \<Rightarrow> rows @ ''[0]''
         | ZeroOrOne \<Rightarrow> count @ '' > 0 ? '' @ rows @ ''[0] : null''
         | Many \<Rightarrow> rows)"

definition positionalFuncParams :: "TypeClient \<Rightarrow> StatementDescription \<Rightarrow> string" where
  "positionalFuncParams types' stmt =
     join '', ''
       (traverseATs (params stmt)
          (\<lambda>param. name param @ '': '' @ TypeClient.tsType types' (type param) (nullable param)))"

definition namedFuncParams :: "TypeClient \<Rightarrow> StatementDescription \<Rightarrow> string" where
  "namedFuncParams types' stmt = ''params: { '' @ positionalFuncParams types' stmt @ '' }''"

definition funcParams :: "TypeClient \<Rightarrow> StatementDescription \<Rightarrow> bool \<Rightarrow> string" where
  "funcParams types' stmt positionalOnly =
     (if length (params stmt) = 0 then ''''
      else '', '' @ (if positionalOnly then positionalFuncParams types' stmt
                     else namedFuncParams types' stmt))"

definition queryValues ::
  "TypeClient \<Rightarrow> StatementDescription \<Rightarrow> bool \<Rightarrow> bool \<Rightarrow> bool \<Rightarrow> string list" where
  "queryValues types' stmt positionalOnly encodeArray serializeFunctionOnConnection =
     (if length (params stmt) = 0 then []
      else
        let prefix = (if positionalOnly then '''' else ''params.'') in
        map (\<lambda>param.
               let p = prefix @ name param;
                   transform = getTransform types' (oid (type param));
                   pWithTransform =
                     (case transform of
                        Some t \<Rightarrow>
                          p @ '' && '' @
                          (if serializeFunctionOnConnection then ''sql.types.'' else '''') @
                          serializeFunc t @ ''('' @ p @ '')''
                      | None \<Rightarrow> p)
               in if encodeArray \<and> TypeClient.isArray types' (oid (type param))
                  then ''sql.array('' @ pWithTransform @ '')''
                  else pWithTransform)
            (params stmt))"

text \<open>
  The arguments that \<^verbatim>\<open>generateTypeScript\<close> hands to the target's template
  (\<^verbatim>\<open>generators[target]\<close>) for the parameter list, the return type, the query values and
  the returned expression. The template itself only splices these strings into the text
  of the function.
\<close>

record GeneratorOptions =
  opt_params :: string
  opt_returnType :: string
  opt_queryValues :: "string list"
  opt_outputValue :: string

definition generatorOptions ::
  "TypeClient \<Rightarrow> CodegenTarget \<Rightarrow> StatementDescription \<Rightarrow> GeneratorOptions" where
  "generatorOptions types' target stmt =
     (let positionalOnly = hasOnlyPositionalParams stmt in
      \<lparr>opt_params = funcParams types' stmt positionalOnly,
       opt_returnType = funcReturnType types' stmt,
       opt_queryValues =
         queryValues types' stmt positionalOnly (target = postgres) (target = postgres),
       opt_outputValue = outputValue target stmt\<rparr>)"

section \<open>The analysis pipeline\<close>



section \<open>Preprocessor\<close>

text \<open>
  Modelled from the spec: the preprocessor of \<^verbatim>\<open>./preprocess\<close> is not among the sources.
  Its input is raw SQL text with named placeholders, a marker character (the colon of
  \<^verbatim>\<open>:id\<close>) followed by an identifier; its output is \<^verbatim>\<open>{ sql, paramNames }\<close>, the text with
  positional placeholders and the original names, one per synthesized position. A marker
  inside a string literal, a quoted identifier or a comment is not rewritten. The same
  name at several places gets one position number per distinct name, reused at each
  repeat. The preprocessor fails when a name token is malformed (here: the marker
  directly followed by a digit, which cannot start an identifier).

  The text is scanned one character at a time into tokens: characters copied as they
  are, and occurrences of named placeholders.
\<close>

datatype token = Ch char | Param string

datatype mode =
    Normal
  | SingleQuoted
  | DoubleQuoted
  | LineComment
  | BlockOpen
  | BlockComment
  | BlockClose
  | Name string

definition isIdentStart :: "char \<Rightarrow> bool" where
  "isIdentStart c = (c \<in> set ''abcdefghijklmnopqrstuvwxyzABCDEFGHIJKLMNOPQRSTUVWXYZ_'')"

definition isIdentChar :: "char \<Rightarrow> bool" where
  "isIdentChar c = (isIdentStart c \<or> isDigit c)"

definition startsWith :: "char \<Rightarrow> string \<Rightarrow> bool" where
  "startsWith c cs = (case cs of [] \<Rightarrow> False | d # _ \<Rightarrow> d = c)"

definition emit :: "token \<Rightarrow> string + token list \<Rightarrow> string + token list" where
  "emit t r = (case r of Inl e \<Rightarrow> Inl e | Inr ts \<Rightarrow> Inr (t # ts))"

function (sequential) scan :: "mode \<Rightarrow> string \<Rightarrow> string + token list" where
  "scan (Name n) [] = Inr [Param n]"
| "scan m [] = Inr []"
| "scan Normal (c # cs) =
     (if c = CHR 0x27 then emit (Ch c) (scan SingleQuoted cs)
      else if c = CHR 0x22 then emit (Ch c) (scan DoubleQuoted cs)
      else if c = CHR ''-'' \<and> startsWith (CHR ''-'') cs then emit (Ch c) (scan LineComment cs)
      else if c = CHR ''/'' \<and> startsWith (CHR ''*'') cs then emit (Ch c) (scan BlockOpen cs)
      else if c = CHR '':'' then
        (case cs of
           [] \<Rightarrow> emit (Ch c) (scan Normal cs)
         | d # _ \<Rightarrow>
             if isIdentStart d then scan (Name []) cs
             else if isDigit d then Inl ''Malformed parameter name''
             else emit (Ch c) (scan Normal cs))
      else emit (Ch c) (scan Normal cs))"
| "scan SingleQuoted (c # cs) =
     emit (Ch c) (scan (if c = CHR 0x27 then Normal else SingleQuoted) cs)"
| "scan DoubleQuoted (c # cs) =
     emit (Ch c) (scan (if c = CHR 0x22 then Normal else DoubleQuoted) cs)"
| "scan LineComment (c # cs) =
     emit (Ch c) (scan (if c = CHR 0x0A then Normal else LineComment) cs)"
| "scan BlockOpen (c # cs) = emit (Ch c) (scan BlockComment cs)"
| "scan BlockComment (c # cs) =
     emit (Ch c)
       (scan (if c = CHR ''*'' \<and> startsWith (CHR ''/'') cs then BlockClose else BlockComment) cs)"
| "scan BlockClose (c # cs) = emit (Ch c) (scan Normal cs)"
| "scan (Name n) (c # cs) =
     (if isIdentChar c then scan (Name (n @ [c])) cs
      else emit (Param n) (scan Normal (c # cs)))"
  by pat_completeness auto
termination
  by (relation "measure (\<lambda>(m, cs). 2 * length cs + (case m of Name n \<Rightarrow> 1 | _ \<Rightarrow> 0))")
     auto

text \<open>The position of a name in the list of names, counted from zero.\<close>

fun indexOf :: "'a \<Rightarrow> 'a list \<Rightarrow> nat" where
  "indexOf x [] = 0"
| "indexOf x (y # ys) = (if x = y then 0 else Suc (indexOf x ys))"

text \<open>
  The rewriting pass, with the names met so far: a name not met before is appended and
  takes the next position number, a name met before reuses its number.
\<close>

fun number :: "token list \<Rightarrow> string list \<Rightarrow> string \<times> string list" where
  "number [] names = ([], names)"
| "number (Ch c # ts) names = (case number ts names of (s, ns) \<Rightarrow> (c # s, ns))"
| "number (Param n # ts) names =
     (let names' = (if n \<in> set names then names else names @ [n]);
          placeholder = ''$'' @ string_of_nat (indexOf n names' + 1)
      in case number ts names' of (s, ns) \<Rightarrow> (placeholder @ s, ns))"

definition preprocessSQL :: "string \<Rightarrow> string + Preprocessed" where
  "preprocessSQL text =
     (case scan Normal text of
        Inl e \<Rightarrow> Inl e
      | Inr ts \<Rightarrow>
          (case number ts [] of (s, ns) \<Rightarrow> Inr \<lparr>Preprocessed.sql = s, paramNames = ns\<rparr>))"

text \<open>
  For stating what the pass does: the names of the placeholder occurrences of a token
  list, in textual order, and the text of a token given the final list of names.
\<close>

definition paramOccurrences :: "token list \<Rightarrow> string list" where
  "paramOccurrences ts = concat (map (\<lambda>t. case t of Ch c \<Rightarrow> [] | Param n \<Rightarrow> [n]) ts)"

definition render :: "string list \<Rightarrow> token \<Rightarrow> string" where
  "render ns t =
     (case t of Ch c \<Rightarrow> [c] | Param n \<Rightarrow> ''$'' @ string_of_nat (indexOf n ns + 1))"

section \<open>Loading the transform configuration\<close>

text \<open>
  A value as \<^verbatim>\<open>JSON.parse\<close> returns it. An object is the list of its own properties in the
  order in which \<^verbatim>\<open>for ... in\<close> enumerates them, with pairwise different keys. A number is
  only ever tested for being zero here; it is a rational, as every finite double is.
\<close>

datatype json =
    JNull
  | JBool bool
  | JNum rat
  | JStr string
  | JArr "json list"
  | JObj "(string \<times> json) list"

text \<open>The truthiness of a value, as \<^verbatim>\<open>&&\<close> tests it.\<close>

fun truthy :: "json \<Rightarrow> bool" where
  "truthy JNull = False"
| "truthy (JBool b) = b"
| "truthy (JNum n) = (n \<noteq> 0)"
| "truthy (JStr s) = (s \<noteq> '''')"
| "truthy (JArr xs) = True"
| "truthy (JObj kvs) = True"

text \<open>
  \<^verbatim>\<open>typeof transforms === 'object'\<close>: true of plain objects, of arrays and of \<^verbatim>\<open>null\<close>.
\<close>

fun typeofObject :: "json \<Rightarrow> bool" where
  "typeofObject JNull = True"
| "typeofObject (JArr xs) = True"
| "typeofObject (JObj kvs) = True"
| "typeofObject (JBool b) = False"
| "typeofObject (JNum n) = False"
| "typeofObject (JStr s) = False"

text \<open>
  Reading one of the properties \<^verbatim>\<open>tsType\<close> and \<^verbatim>\<open>serializeFunc\<close> of a truthy value;
  \<^const>\<open>None\<close> is \<^verbatim>\<open>undefined\<close>. Only a plain object has such a property of its own.
\<close>

fun getProp :: "json \<Rightarrow> string \<Rightarrow> json option" where
  "getProp (JObj kvs) k = map_of kvs k"
| "getProp j k = None"

text \<open>
  The keys that \<^verbatim>\<open>for (var key in transforms)\<close> enumerates, each with \<^verbatim>\<open>transforms[key]\<close>:
  the properties of an object, the indices of an array in ascending order, nothing for
  \<^verbatim>\<open>null\<close>.
\<close>

fun forInEntries :: "json \<Rightarrow> (string \<times> json) list" where
  "forInEntries (JObj kvs) = kvs"
| "forInEntries (JArr xs) = zip (map string_of_nat [0..<length xs]) xs"
| "forInEntries j = []"

text \<open>The test \<^verbatim>\<open>val && val.tsType && val.serializeFunc\<close>.\<close>

definition validEntry :: "json \<Rightarrow> bool" where
  "validEntry val =
     (truthy val \<and>
      (case getProp val ''tsType'' of None \<Rightarrow> False | Some t \<Rightarrow> truthy t) \<and>
      (case getProp val ''serializeFunc'' of None \<Rightarrow> False | Some f \<Rightarrow> truthy f))"

text \<open>
  \<^verbatim>\<open>Map.prototype.set\<close> on a map kept as the list of its entries in insertion order: the
  value of a key already present is replaced in place.
\<close>

fun Map_set :: "'k \<Rightarrow> 'v \<Rightarrow> ('k \<times> 'v) list \<Rightarrow> ('k \<times> 'v) list" where
  "Map_set k v [] = [(k, v)]"
| "Map_set k v ((k', v') # m) = (if k' = k then (k, v) # m else (k', v') # Map_set k v m)"

text \<open>
  The loop of \<^verbatim>\<open>getTransforms\<close>; a \<^verbatim>\<open>throw\<close> is a left with the error's message. The key
  parser (\<^verbatim>\<open>parseInt\<close>) is a parameter.
\<close>

fun getTransforms_loop ::
  "(string \<Rightarrow> 'k) \<Rightarrow> (string \<times> json) list \<Rightarrow> ('k \<times> json) list \<Rightarrow> string + ('k \<times> json) list" where
  "getTransforms_loop parse [] m = Inr m"
| "getTransforms_loop parse ((key, val) # rest) m =
     (if validEntry val then getTransforms_loop parse rest (Map_set (parse key) val m)
      else Inl ''Invalid transforms structure'')"

text \<open>
  \<^verbatim>\<open>getTransforms\<close> of \<^verbatim>\<open>cli.ts\<close>, from the value that \<^verbatim>\<open>JSON.parse\<close> returned for the
  file's contents (the name \<open>getTransforms\<close> is taken by the type client's method).
\<close>

definition getTransforms_cli :: "(string \<Rightarrow> 'k) \<Rightarrow> json \<Rightarrow> string + ('k \<times> json) list" where
  "getTransforms_cli parse transforms =
     (if typeofObject transforms then getTransforms_loop parse (forInEntries transforms) []
      else Inl ''Invalid transforms structure, should be an object'')"

text \<open>
  \<^verbatim>\<open>parseInt(key)\<close> with no radix: leading white space is skipped, a sign is read, the
  prefix \<^verbatim>\<open>0x\<close> or \<^verbatim>\<open>0X\<close> selects base sixteen, and the longest run of digits of the base is
  the value; \<^const>\<open>None\<close> is \<^verbatim>\<open>NaN\<close>, returned when there is no digit. The value is exact
  here; JavaScript rounds a value beyond \<open>2\<^sup>5\<^sup>3\<close> to a double. White space is the ASCII part
  of what JavaScript skips.
\<close>

definition isWhiteSpace :: "char \<Rightarrow> bool" where
  "isWhiteSpace c = (c \<in> set [CHR 0x20, CHR 0x09, CHR 0x0A, CHR 0x0B, CHR 0x0C, CHR 0x0D])"

definition digitValue :: "char \<Rightarrow> nat option" where
  "digitValue c =
     (if c \<in> set ''0123456789'' then Some (of_char c - 48)
      else if c \<in> set ''abcdef'' then Some (of_char c - 87)
      else if c \<in> set ''ABCDEF'' then Some (of_char c - 55)
      else None)"

fun takeDigits :: "nat \<Rightarrow> string \<Rightarrow> nat list" where
  "takeDigits r [] = []"
| "takeDigits r (c # cs) =
     (case digitValue c of
        None \<Rightarrow> []
      | Some d \<Rightarrow> if d < r then d # takeDigits r cs else [])"

definition parseInt :: "string \<Rightarrow> int option" where
  "parseInt s =
     (let s1 = dropWhile isWhiteSpace s;
          (sign, s2) =
            (case s1 of
               [] \<Rightarrow> (1, s1)
             | c # t \<Rightarrow> if c = CHR ''-'' then (- 1, t) else if c = CHR ''+'' then (1, t) else (1, s1));
          (r, s3) =
            (case s2 of
               c # x # t \<Rightarrow>
                 if c = CHR ''0'' \<and> (x = CHR ''x'' \<or> x = CHR ''X'') then (16, t) else (10, s2)
             | _ \<Rightarrow> (10, s2));
          ds = takeDigits r s3
      in if ds = [] then None
         else Some (sign * int (foldl (\<lambda>acc d. acc * r + d) 0 ds)))"

section \<open>The catalog attribute query\<close>

text \<open>
  \<^verbatim>\<open>tableColumns\<close> of \<^verbatim>\<open>sql/tableColumns.ts\<close> sends one query; this is the query on the
  catalogs as they are when it runs. The two inner joins and the \<^verbatim>\<open>WHERE\<close> clause keep the
  combinations of an attribute, a relation and a namespace that satisfy the join and
  filter conditions, the \<^verbatim>\<open>SELECT\<close> list keeps the attribute's six columns, and \<^verbatim>\<open>ORDER BY
  attnum\<close> sorts the rows by \<^verbatim>\<open>attnum\<close>, ascending (rows of equal \<^verbatim>\<open>attnum\<close>, which SQL may
  return in any order, stay in the order of the join here).
\<close>

definition tableColumns :: "Catalog \<Rightarrow> string \<Rightarrow> string \<Rightarrow> AttributeRow list" where
  "tableColumns db schemaName tableName =
     sort_key attnum
       [AttributeRow.truncate attr.
          attr \<leftarrow> pg_attribute db,
          cls \<leftarrow> pg_class db, attrelid attr = pg_class.oid cls,
          nsp \<leftarrow> pg_namespace db, pg_namespace.oid nsp = relnamespace cls,
          (relkind cls = CHR ''r'' \<or> relkind cls = CHR ''v'') \<and>
          nspname nsp = schemaName \<and>
          relname cls = tableName]"

text \<open>
  In the specification's words: a relation matches a schema name and a table name when it
  is an ordinary table or a view, has the table name, and lies in a namespace of the
  schema name.
\<close>

definition relationMatches :: "Catalog \<Rightarrow> string \<Rightarrow> string \<Rightarrow> pg_class \<Rightarrow> bool" where
  "relationMatches db schemaName tableName cls =
     ((relkind cls = CHR ''r'' \<or> relkind cls = CHR ''v'') \<and>
      relname cls = tableName \<and>
      (\<exists>nsp \<in> set (pg_namespace db).
         pg_namespace.oid nsp = relnamespace cls \<and> nspname nsp = schemaName))"

section \<open>Example values\<close>

text \<open>Concrete inputs at which the theorems below are instantiated.\<close>

definition exampleTransform :: Transform where
  "exampleTransform =
     \<lparr>Transform.tsType = ''Point'', serializeFunc = ''serializePoint'', import = None\<rparr>"

definition exampleTypes :: TypeClient where
  "exampleTypes =
     \<lparr>TypeClient.columnType = (\<lambda>c. (name c, if nullable c then ''number | null'' else ''number'')),
      TypeClient.tsType = (\<lambda>t n. if n then ''number | null'' else ''number''),
      getTransforms = [(600, exampleTransform)],
      getTransform = map_of [(600, exampleTransform)],
      TypeClient.isArray = (\<lambda>i. i = 1007 \<or> i = 1017)\<rparr>"

definition namedValue :: "string \<Rightarrow> int \<Rightarrow> NamedValue" where
  "namedValue n i =
     \<lparr>name = n, type = \<lparr>oid = i, TypeRef.isArray = False, elementOid = None\<rparr>, nullable = False\<rparr>"

definition exampleStmt :: "NamedValue list \<Rightarrow> NamedValue list \<Rightarrow> RowCount \<Rightarrow> StatementDescription" where
  "exampleStmt ps cs rc = \<lparr>sql = ''SELECT 1'', params = ps, columns = cs, rowCount = rc\<rparr>"






definition exampleTypeClient :: "(int \<times> Transform) list \<Rightarrow> nat \<Rightarrow> (TypeClient, string list) Task" where
  "exampleTypeClient transforms conn =
     (\<lambda>log. (Resolved (exampleTypes\<lparr>getTransforms := transforms, getTransform := map_of transforms\<rparr>),
              log @ [''typeClient'']))"

definition exampleClients :: "nat Clients" where
  "exampleClients =
     \<lparr>Clients.postgres = 1,
      schema = \<lparr>connection = 1,
                tableCache = [((''public'', ''person''),
                               [(''name'', \<lparr>notNull = True, hasDefault = False\<rparr>)])]\<rparr>,
      types = exampleTypes\<rparr>"

text \<open>A check that warns about the sub-expressions it cannot resolve.\<close>

definition exampleCheck :: "string \<Rightarrow> bool Warn" where
  "exampleCheck e =
     (if e \<in> set [''a'', ''b''] then Warn False []
      else Warn True [''Cannot resolve '' @ e])"

definition transformEntry :: "string \<Rightarrow> string \<Rightarrow> json" where
  "transformEntry t f = JObj [(''tsType'', JStr t), (''serializeFunc'', JStr f)]"

definition attribute :: "int \<Rightarrow> int \<Rightarrow> string \<Rightarrow> int \<Rightarrow> bool \<Rightarrow> pg_attribute" where
  "attribute rel n a t nn =
     \<lparr>attnum = n, attname = a, atttypid = t, attnotnull = nn, atthasdef = False,
      attisdropped = False, attrelid = rel\<rparr>"

definition exampleCatalog :: Catalog where
  "exampleCatalog =
     \<lparr>pg_attribute =
        [attribute 16384 2 ''name'' 25 False,
         attribute 16390 1 ''sku'' 25 True,
         attribute 16384 1 ''id'' 23 True,
         attribute 16400 1 ''id'' 23 True],
      pg_class =
        [\<lparr>pg_class.oid = 16384, relname = ''person'', relnamespace = 2200, relkind = CHR ''r''\<rparr>,
         \<lparr>pg_class.oid = 16390, relname = ''product'', relnamespace = 2200, relkind = CHR ''r''\<rparr>,
         \<lparr>pg_class.oid = 16400, relname = ''person_pkey'', relnamespace = 2200, relkind = CHR ''i''\<rparr>],
      pg_namespace =
        [\<lparr>pg_namespace.oid = 11, nspname = ''pg_catalog''\<rparr>,
         \<lparr>pg_namespace.oid = 2200, nspname = ''public''\<rparr>]\<rparr>"

section \<open>Theorems\<close>

subsection \<open>Duplicate output columns\<close>

lemma set_add_set: "set (set_add x s) = insert x (set s)"
  by (auto simp: set_add_def)

lemma set_add_distinct: "distinct s \<Longrightarrow> distinct (set_add x s)"
  by (simp add: set_add_def)

lemma count_list_snoc: "count_list (ns @ [x]) n = count_list ns n + (if n = x then 1 else 0)"
  by (induction ns) simp_all

lemma dup_set_snoc:
  "{n. 2 \<le> count_list (ns @ [x]) n} =
     (if x \<in> set ns then insert x {n. 2 \<le> count_list ns n} else {n. 2 \<le> count_list ns n})"
proof (cases "x \<in> set ns")
  case True
  then have "count_list ns x \<noteq> 0" by (simp add: count_list_0_iff)
  then have "\<And>n. (2 \<le> count_list (ns @ [x]) n) = (n = x \<or> 2 \<le> count_list ns n)"
    unfolding count_list_snoc by (case_tac "n = x") simp_all
  then show ?thesis using True by (simp add: set_eq_iff)
next
  case False
  then have "count_list ns x = 0" by (simp add: count_list_0_iff)
  then have "\<And>n. (2 \<le> count_list (ns @ [x]) n) = (2 \<le> count_list ns n)"
    unfolding count_list_snoc by (case_tac "n = x") simp_all
  then show ?thesis using False by simp
qed

lemma validate_step_inv:
  assumes "validate_step (cn, cf) c = (cn1, cf1)" "distinct cf" "set cn = set ns"
    "set cf = {n. 2 \<le> count_list ns n}"
  shows "distinct cf1 \<and> set cn1 = set (ns @ [name c]) \<and>
         set cf1 = {n. 2 \<le> count_list (ns @ [name c]) n}"
proof (cases "name c \<in> set cn")
  case True
  then have e: "cn1 = cn" "cf1 = set_add (name c) cf"
    using assms(1) by (simp_all add: validate_step_def)
  show ?thesis
    unfolding e dup_set_snoc using True assms(2,3,4)
    by (simp add: set_add_set set_add_distinct insert_absorb)
next
  case False
  then have e: "cn1 = set_add (name c) cn" "cf1 = cf"
    using assms(1) by (simp_all add: validate_step_def)
  show ?thesis
    unfolding e dup_set_snoc using False assms(2,3,4)
    by (simp add: set_add_set)
qed

lemma validate_fold:
  "foldl validate_step (cn, cf) cols = (cn', cf') \<Longrightarrow>
   distinct cf \<Longrightarrow> set cn = set ns \<Longrightarrow> set cf = {n. 2 \<le> count_list ns n} \<Longrightarrow>
   distinct cf' \<and> set cf' = {n. 2 \<le> count_list (ns @ map name cols) n}"
proof (induction cols arbitrary: cn cf ns)
  case Nil
  then show ?case by simp
next
  case (Cons c cols)
  obtain cn1 cf1 where st: "validate_step (cn, cf) c = (cn1, cf1)"
    by (cases "validate_step (cn, cf) c")
  have inv: "distinct cf1 \<and> set cn1 = set (ns @ [name c]) \<and>
         set cf1 = {n. 2 \<le> count_list (ns @ [name c]) n}"
    by (rule validate_step_inv[OF st Cons.prems(2,3,4)])
  have "foldl validate_step (cn1, cf1) cols = (cn', cf')"
    using Cons.prems(1) st by simp
  from Cons.IH[OF this, of "ns @ [name c]"] inv show ?case by simp
qed


lemma distinct_count_le: "distinct xs \<longleftrightarrow> {n. 2 \<le> count_list xs n} = {}"
proof (induction xs rule: rev_induct)
  case Nil
  then show ?case by simp
next
  case (snoc a xs)
  then show ?case unfolding dup_set_snoc by simp
qed

text \<open>
  C1. validateStatement returns the statement unchanged (a right) when the names of its
  columns are pairwise different, and otherwise an error (a left, never a warning): the
  text \<open>Duplicate output columns: \<close> followed by the names that occur at least twice, each
  once, in ascending order, separated by a comma and a space.
\<close>

theorem validateStatement_duplicates:
  "validateStatement stmt =
     (if distinct (map name (columns stmt)) then Inr stmt
      else Inl (''Duplicate output columns: '' @
                join '', '' (sorted_list_of_set {n. 2 \<le> count_list (map name (columns stmt)) n})))"
proof -
  obtain cn cf where f: "foldl validate_step ([], []) (columns stmt) = (cn, cf)"
    by (cases "foldl validate_step ([], []) (columns stmt)")
  have inv: "distinct cf \<and> set cf = {n. 2 \<le> count_list ([] @ map name (columns stmt)) n}"
    by (rule validate_fold[OF f]) simp_all
  then have dc: "distinct cf" and sc: "set cf = {n. 2 \<le> count_list (map name (columns stmt)) n}"
    by simp_all
  have "sort cf = sorted_list_of_set (set cf)"
    using dc by (simp add: sorted_list_of_set_sort_remdups distinct_remdups_id)
  then have srt: "sort cf = sorted_list_of_set {n. 2 \<le> count_list (map name (columns stmt)) n}"
    using sc by simp
  have emp: "cf = [] \<longleftrightarrow> distinct (map name (columns stmt))"
    using sc distinct_count_le[of "map name (columns stmt)"] by auto
  show ?thesis
    using f srt emp by (simp add: validateStatement_def)
qed

theorem validateStatement_duplicates_witness:
  "validateStatement (exampleStmt [] [namedValue ''id'' 23, namedValue ''title'' 25] Many) =
     Inr (exampleStmt [] [namedValue ''id'' 23, namedValue ''title'' 25] Many)"
  using validateStatement_duplicates
    [of "exampleStmt [] [namedValue ''id'' 23, namedValue ''title'' 25] Many"]
  by (simp add: exampleStmt_def namedValue_def)

lemma validateStatement_example_conflict:
  "validateStatement
     (exampleStmt [] (map (\<lambda>n. namedValue n 23) [''b'', ''a'', ''b'', ''c'', ''a'', ''b'']) Many) =
     Inl ''Duplicate output columns: a, b''"
  by (simp add: validateStatement_def validate_step_def set_add_def exampleStmt_def namedValue_def)

subsection \<open>Return shape by cardinality class\<close>

lemma generatorOptions_sel:
  "opt_params (generatorOptions types' target stmt) =
     funcParams types' stmt (hasOnlyPositionalParams stmt)"
  "opt_returnType (generatorOptions types' target stmt) = funcReturnType types' stmt"
  "opt_queryValues (generatorOptions types' target stmt) =
     queryValues types' stmt (hasOnlyPositionalParams stmt) (target = postgres) (target = postgres)"
  "opt_outputValue (generatorOptions types' target stmt) = outputValue target stmt"
  by (simp_all add: generatorOptions_def Let_def)

lemma rowType_same_columns:
  "columns stmt' = columns stmt \<Longrightarrow> rowType types' stmt' = rowType types' stmt"
  by (simp add: rowType_def)

lemma rowType_head: "\<exists>r. rowType types' stmt = CHR ''{'' # r"
  by (simp add: rowType_def)

lemma funcReturnType_number:
  "(funcReturnType types' stmt = ''number'') = (rowCount stmt = Zero)"
proof -
  obtain r where r: "rowType types' stmt = CHR ''{'' # r"
    using rowType_head by blast
  show ?thesis
    by (cases "rowCount stmt") (simp_all add: funcReturnType_def r)
qed

lemma funcReturnType_inj:
  assumes "columns stmt' = columns stmt"
  shows "(funcReturnType types' stmt' = funcReturnType types' stmt) = (rowCount stmt' = rowCount stmt)"
proof -
  obtain r where r: "rowType types' stmt = CHR ''{'' # r"
    using rowType_head by blast
  have r': "rowType types' stmt' = CHR ''{'' # r"
    using rowType_same_columns[OF assms] r by simp
  show ?thesis
    by (cases "rowCount stmt'"; cases "rowCount stmt") (simp_all add: funcReturnType_def r r')
qed

lemma outputValue_inj:
  "(outputValue target stmt' = outputValue target stmt) = (rowCount stmt' = rowCount stmt)"
  by (cases target; cases "rowCount stmt'"; cases "rowCount stmt")
     (simp_all add: outputValue_def)

text \<open>
  C2. The return type and the returned expression that generateTypeScript passes to the
  template are fixed by the statement's cardinality class. For \<open>Zero\<close> the return type is
  \<open>number\<close> and the returned expression is the driver's affected-row count; for \<open>One\<close> they
  are the row type and the first row; for \<open>ZeroOrOne\<close> the row type or \<open>null\<close>, and the
  first row guarded by a positive count; for \<open>Many\<close> an array of the row type and all rows.
  The class can be read back from either string: \<open>number\<close> is returned for \<open>Zero\<close> only,
  and two statements with the same columns get the same return type, or the same returned
  expression, only when their classes agree.
\<close>

theorem return_shape_by_rowCount:
  "opt_returnType (generatorOptions types' target stmt) =
     (case rowCount stmt of
        Zero \<Rightarrow> ''number''
      | One \<Rightarrow> rowType types' stmt
      | ZeroOrOne \<Rightarrow> rowType types' stmt @ '' | null''
      | Many \<Rightarrow> ''Array<'' @ rowType types' stmt @ ''>'')
   \<and> opt_outputValue (generatorOptions types' pg stmt) =
     (case rowCount stmt of
        Zero \<Rightarrow> ''result.rowCount''
      | One \<Rightarrow> ''result.rows[0]''
      | ZeroOrOne \<Rightarrow> ''result.rowCount > 0 ? result.rows[0] : null''
      | Many \<Rightarrow> ''result.rows'')
   \<and> opt_outputValue (generatorOptions types' postgres stmt) =
     (case rowCount stmt of
        Zero \<Rightarrow> ''result.count''
      | One \<Rightarrow> ''result[0]''
      | ZeroOrOne \<Rightarrow> ''result.count > 0 ? result[0] : null''
      | Many \<Rightarrow> ''result'')
   \<and> ((opt_returnType (generatorOptions types' target stmt) = ''number'') = (rowCount stmt = Zero))
   \<and> (columns stmt' = columns stmt \<longrightarrow>
        (opt_returnType (generatorOptions types' target stmt') =
           opt_returnType (generatorOptions types' target stmt)) =
        (rowCount stmt' = rowCount stmt))
   \<and> ((opt_outputValue (generatorOptions types' target stmt') =
         opt_outputValue (generatorOptions types' target stmt)) =
        (rowCount stmt' = rowCount stmt))"
proof -
  have 1: "funcReturnType types' stmt =
     (case rowCount stmt of
        Zero \<Rightarrow> ''number''
      | One \<Rightarrow> rowType types' stmt
      | ZeroOrOne \<Rightarrow> rowType types' stmt @ '' | null''
      | Many \<Rightarrow> ''Array<'' @ rowType types' stmt @ ''>'')"
    by (simp add: funcReturnType_def)
  have 2: "outputValue pg stmt =
     (case rowCount stmt of
        Zero \<Rightarrow> ''result.rowCount''
      | One \<Rightarrow> ''result.rows[0]''
      | ZeroOrOne \<Rightarrow> ''result.rowCount > 0 ? result.rows[0] : null''
      | Many \<Rightarrow> ''result.rows'')"
    by (cases "rowCount stmt") (simp_all add: outputValue_def)
  have 3: "outputValue postgres stmt =
     (case rowCount stmt of
        Zero \<Rightarrow> ''result.count''
      | One \<Rightarrow> ''result[0]''
      | ZeroOrOne \<Rightarrow> ''result.count > 0 ? result[0] : null''
      | Many \<Rightarrow> ''result'')"
    by (cases "rowCount stmt") (simp_all add: outputValue_def)
  show ?thesis
    unfolding generatorOptions_sel
    using 1 2 3 funcReturnType_number[of types' stmt] funcReturnType_inj[of stmt' stmt types']
      outputValue_inj[of target stmt' stmt]
    by blast
qed

theorem return_shape_by_rowCount_witness:
  "opt_returnType (generatorOptions exampleTypes pg (exampleStmt [] [namedValue ''id'' 23] Zero)) =
     ''number''
   \<and> opt_returnType (generatorOptions exampleTypes pg (exampleStmt [] [namedValue ''id'' 23] Many)) \<noteq>
     opt_returnType (generatorOptions exampleTypes pg (exampleStmt [] [namedValue ''id'' 23] One))"
proof -
  let ?z = "exampleStmt [] [namedValue ''id'' 23] Zero"
  let ?o = "exampleStmt [] [namedValue ''id'' 23] One"
  let ?m = "exampleStmt [] [namedValue ''id'' 23] Many"
  note z = return_shape_by_rowCount [of exampleTypes pg ?z ?z]
  note m = return_shape_by_rowCount [of exampleTypes pg ?o ?m]
  have "(opt_returnType (generatorOptions exampleTypes pg ?z) = ''number'') = (rowCount ?z = Zero)"
    using z by blast
  then have a: "opt_returnType (generatorOptions exampleTypes pg ?z) = ''number''"
    by (simp add: exampleStmt_def)
  have "columns ?m = columns ?o \<longrightarrow>
        (opt_returnType (generatorOptions exampleTypes pg ?m) =
           opt_returnType (generatorOptions exampleTypes pg ?o)) =
        (rowCount ?m = rowCount ?o)"
    using m by blast
  moreover have "columns ?m = columns ?o" "rowCount ?m \<noteq> rowCount ?o"
    by (simp_all add: exampleStmt_def)
  ultimately have b: "opt_returnType (generatorOptions exampleTypes pg ?m) \<noteq>
           opt_returnType (generatorOptions exampleTypes pg ?o)"
    by blast
  show ?thesis using a b by blast
qed

lemma return_shape_examples:
  "funcReturnType exampleTypes (exampleStmt [] [namedValue ''id'' 23, namedValue ''n'' 23] ZeroOrOne) =
     ''{ 'id': number; 'n': number } | null''"
  "outputValue postgres (exampleStmt [] [namedValue ''id'' 23] ZeroOrOne) =
     ''result.count > 0 ? result[0] : null''"
  by (simp_all add: funcReturnType_def rowType_def traverseATs_def columnType_def
        stringLiteral_def exampleTypes_def exampleStmt_def namedValue_def outputValue_def)

subsection \<open>Parameter list of the generated function\<close>

lemma matchDollarDigits_iff:
  "matchDollarDigits s = (\<exists>i. Suc i < length s \<and> s ! i = CHR ''$'' \<and> isDigit (s ! Suc i))"
proof (induction s)
  case Nil
  then show ?case by simp
next
  case (Cons c cs)
  have "(\<exists>i. Suc i < length (c # cs) \<and> (c # cs) ! i = CHR ''$'' \<and> isDigit ((c # cs) ! Suc i)) =
        ((Suc 0 < length (c # cs) \<and> c = CHR ''$'' \<and> isDigit (cs ! 0)) \<or>
         (\<exists>i. Suc i < length cs \<and> cs ! i = CHR ''$'' \<and> isDigit (cs ! Suc i)))"
    (is "?L = (?A \<or> ?B)")
  proof
    assume ?L
    then obtain i where i: "Suc i < length (c # cs)" "(c # cs) ! i = CHR ''$''"
      "isDigit ((c # cs) ! Suc i)" by blast
    show "?A \<or> ?B"
    proof (cases i)
      case 0
      then show ?thesis using i by simp
    next
      case (Suc j)
      then have "Suc j < length cs \<and> cs ! j = CHR ''$'' \<and> isDigit (cs ! Suc j)"
        using i by simp
      then show ?thesis by blast
    qed
  next
    assume "?A \<or> ?B"
    then show ?L
    proof
      assume ?A
      then have "Suc 0 < length (c # cs) \<and> (c # cs) ! 0 = CHR ''$'' \<and> isDigit ((c # cs) ! Suc 0)"
        by simp
      then show ?L by blast
    next
      assume ?B
      then obtain j where "Suc j < length cs" "cs ! j = CHR ''$''" "isDigit (cs ! Suc j)"
        by blast
      then have "Suc (Suc j) < length (c # cs) \<and> (c # cs) ! Suc j = CHR ''$'' \<and>
                 isDigit ((c # cs) ! Suc (Suc j))"
        by simp
      then show ?L by blast
    qed
  qed
  moreover have "(c = CHR ''$'' \<and> (case cs of [] \<Rightarrow> False | d # _ \<Rightarrow> isDigit d)) = ?A"
    by (cases cs) simp_all
  ultimately show ?case using Cons.IH by simp
qed

lemma hasOnlyPositionalParams_iff:
  "hasOnlyPositionalParams stmt = (\<not> (\<exists>param \<in> set (params stmt). \<not> matchDollarDigits (name param)))"
  by (simp add: hasOnlyPositionalParams_def list_all_iff)

lemma wrapped_neq_positional: "'', params: { '' @ ps @ '' }'' \<noteq> '', '' @ ps"
proof
  assume "'', params: { '' @ ps @ '' }'' = '', '' @ ps"
  then have "length ('', params: { '' @ ps @ '' }'') = length ('', '' @ ps)"
    by (rule arg_cong)
  then show False by simp
qed

text \<open>
  C9. The parameter list that generateTypeScript passes to the template: nothing when
  the statement has no parameters; otherwise the parameters wrapped in the single object
  argument \<open>params: { ... }\<close> when some parameter's name has no dollar sign directly
  followed by a digit, and the parameters as separate arguments when every name has one.
  With at least one parameter the wrapped form is produced exactly in the first case.
  A name matches when a dollar sign directly followed by a digit occurs anywhere in it.
\<close>

theorem funcParams_object_or_positional:
  "opt_params (generatorOptions types' target stmt) =
     (if params stmt = [] then ''''
      else if \<exists>param \<in> set (params stmt). \<not> matchDollarDigits (name param)
      then '', params: { '' @ positionalFuncParams types' stmt @ '' }''
      else '', '' @ positionalFuncParams types' stmt)
   \<and> (params stmt \<noteq> [] \<longrightarrow>
        (opt_params (generatorOptions types' target stmt) =
           '', params: { '' @ positionalFuncParams types' stmt @ '' }'') =
        (\<exists>param \<in> set (params stmt). \<not> matchDollarDigits (name param)))
   \<and> matchDollarDigits s =
        (\<exists>i. Suc i < length s \<and> s ! i = CHR ''$'' \<and> s ! Suc i \<in> set ''0123456789'')"
proof -
  have 1: "funcParams types' stmt (hasOnlyPositionalParams stmt) =
     (if params stmt = [] then ''''
      else if \<exists>param \<in> set (params stmt). \<not> matchDollarDigits (name param)
      then '', params: { '' @ positionalFuncParams types' stmt @ '' }''
      else '', '' @ positionalFuncParams types' stmt)"
    by (simp add: funcParams_def namedFuncParams_def hasOnlyPositionalParams_iff)
  have 2: "params stmt \<noteq> [] \<longrightarrow>
        (funcParams types' stmt (hasOnlyPositionalParams stmt) =
           '', params: { '' @ positionalFuncParams types' stmt @ '' }'') =
        (\<exists>param \<in> set (params stmt). \<not> matchDollarDigits (name param))"
    unfolding 1 using wrapped_neq_positional[of "positionalFuncParams types' stmt"]
    by (simp del: append.simps)
  have 3: "matchDollarDigits s =
        (\<exists>i. Suc i < length s \<and> s ! i = CHR ''$'' \<and> s ! Suc i \<in> set ''0123456789'')"
    using matchDollarDigits_iff[of s] by (simp only: isDigit_def)
  show ?thesis
    unfolding generatorOptions_sel using 1 2 3 by blast
qed

theorem funcParams_object_or_positional_witness:
  "opt_params (generatorOptions exampleTypes pg
      (exampleStmt [namedValue ''id'' 23, namedValue ''$2'' 23] [] Zero)) =
     '', params: { id: number, $2: number }''
   \<and> opt_params (generatorOptions exampleTypes pg
      (exampleStmt [namedValue ''$1'' 23, namedValue ''$2'' 23] [] Zero)) =
     '', $1: number, $2: number''
   \<and> opt_params (generatorOptions exampleTypes pg (exampleStmt [] [] Zero)) = ''''"
  using funcParams_object_or_positional [of exampleTypes pg
      "exampleStmt [namedValue ''id'' 23, namedValue ''$2'' 23] [] Zero"]
    funcParams_object_or_positional [of exampleTypes pg
      "exampleStmt [namedValue ''$1'' 23, namedValue ''$2'' 23] [] Zero"]
    funcParams_object_or_positional [of exampleTypes pg "exampleStmt [] [] Zero"]
  by (simp add: exampleStmt_def namedValue_def isDigit_def positionalFuncParams_def
        traverseATs_def exampleTypes_def)

subsection \<open>Query values\<close>

lemma queryValues_nth:
  assumes "i < length (params stmt)"
  shows "queryValues types' stmt positionalOnly encodeArray onConnection ! i =
     (let param = params stmt ! i;
          p = (if positionalOnly then '''' else ''params.'') @ name param;
          pWithTransform =
            (case getTransform types' (oid (type param)) of
               Some t \<Rightarrow>
                 p @ '' && '' @ (if onConnection then ''sql.types.'' else '''') @
                 serializeFunc t @ ''('' @ p @ '')''
             | None \<Rightarrow> p)
      in if encodeArray \<and> TypeClient.isArray types' (oid (type param))
         then ''sql.array('' @ pWithTransform @ '')''
         else pWithTransform)"
proof -
  have "params stmt \<noteq> []" using assms by auto
  then show ?thesis using assms by (simp add: queryValues_def Let_def)
qed

text \<open>
  C10. The query values that generateTypeScript passes to the template, one for each
  parameter, in order. Write \<open>p\<close> for the parameter's expression (its name, after
  \<open>params.\<close> unless all parameters are positional). When the parameter's type oid has a
  registered transform with serialize function \<open>f\<close>, the value is \<open>p && f(p)\<close> for the
  \<open>pg\<close> target and \<open>p && sql.types.f(p)\<close> for the \<open>postgres\<close> target, so that the serialize
  function is applied to a truthy \<open>p\<close> only; without a transform it is \<open>p\<close>. For the
  \<open>postgres\<close> target, and for it only, the value of a parameter whose type oid is an array
  type is wrapped in \<open>sql.array(...)\<close>.
\<close>

theorem queryValues_transform_guarded:
  assumes "i < length (params stmt)"
    and "param = params stmt ! i"
    and "p = (if hasOnlyPositionalParams stmt then '''' else ''params.'') @ name param"
    and "vs = opt_queryValues (generatorOptions types' target stmt)"
  shows "length vs = length (params stmt)
   \<and> (\<forall>t. getTransform types' (oid (type param)) = Some t \<and> target = pg \<longrightarrow>
          vs ! i = p @ '' && '' @ serializeFunc t @ ''('' @ p @ '')'')
   \<and> (\<forall>t. getTransform types' (oid (type param)) = Some t \<and> target = postgres \<and>
          \<not> TypeClient.isArray types' (oid (type param)) \<longrightarrow>
          vs ! i = p @ '' && sql.types.'' @ serializeFunc t @ ''('' @ p @ '')'')
   \<and> (\<forall>t. getTransform types' (oid (type param)) = Some t \<and> target = postgres \<and>
          TypeClient.isArray types' (oid (type param)) \<longrightarrow>
          vs ! i = ''sql.array('' @ p @ '' && sql.types.'' @ serializeFunc t @ ''('' @ p @ ''))'')
   \<and> (getTransform types' (oid (type param)) = None \<longrightarrow>
          vs ! i = (if target = postgres \<and> TypeClient.isArray types' (oid (type param))
                    then ''sql.array('' @ p @ '')'' else p))"
proof -
  have len: "length vs = length (params stmt)"
    unfolding assms(4) generatorOptions_sel by (simp add: queryValues_def)
  have nth: "vs ! i =
     (let pWithTransform =
            (case getTransform types' (oid (type param)) of
               Some t \<Rightarrow>
                 p @ '' && '' @ (if target = postgres then ''sql.types.'' else '''') @
                 serializeFunc t @ ''('' @ p @ '')''
             | None \<Rightarrow> p)
      in if target = postgres \<and> TypeClient.isArray types' (oid (type param))
         then ''sql.array('' @ pWithTransform @ '')''
         else pWithTransform)"
    unfolding assms(2,3,4) generatorOptions_sel queryValues_nth[OF assms(1)]
    by (simp add: Let_def)
  show ?thesis
  proof (cases "getTransform types' (oid (type param))")
    case None
    then show ?thesis using len nth by simp
  next
    case (Some t)
    then show ?thesis using len nth by (cases target) simp_all
  qed
qed

theorem queryValues_transform_guarded_witness:
  "opt_queryValues (generatorOptions exampleTypes postgres
      (exampleStmt [namedValue ''id'' 23, namedValue ''at'' 600, namedValue ''tags'' 1007] [] Zero)) ! 1 =
     ''params.at && sql.types.serializePoint(params.at)''
   \<and> opt_queryValues (generatorOptions exampleTypes pg
      (exampleStmt [namedValue ''$1'' 600] [] Zero)) ! 0 = ''$1 && serializePoint($1)''
   \<and> opt_queryValues (generatorOptions exampleTypes postgres
      (exampleStmt [namedValue ''id'' 23, namedValue ''at'' 600, namedValue ''tags'' 1007] [] Zero)) ! 2 =
     ''sql.array(params.tags)''"
proof -
  let ?s = "exampleStmt [namedValue ''id'' 23, namedValue ''at'' 600, namedValue ''tags'' 1007] [] Zero"
  let ?s1 = "exampleStmt [namedValue ''$1'' 600] [] Zero"
  have np: "\<not> hasOnlyPositionalParams ?s"
    by (simp add: hasOnlyPositionalParams_def exampleStmt_def namedValue_def)
  have pp: "hasOnlyPositionalParams ?s1"
    by (simp add: hasOnlyPositionalParams_def exampleStmt_def namedValue_def isDigit_def)
  have a: "opt_queryValues (generatorOptions exampleTypes postgres ?s) ! 1 =
     ''params.at && sql.types.serializePoint(params.at)''"
    using queryValues_transform_guarded [of 1 ?s "namedValue ''at'' 600" "''params.at''"
        "opt_queryValues (generatorOptions exampleTypes postgres ?s)" exampleTypes postgres] np
    by (simp add: exampleStmt_def namedValue_def exampleTypes_def exampleTransform_def)
  have b: "opt_queryValues (generatorOptions exampleTypes pg ?s1) ! 0 = ''$1 && serializePoint($1)''"
    using queryValues_transform_guarded [of 0 ?s1 "namedValue ''$1'' 600" "''$1''"
        "opt_queryValues (generatorOptions exampleTypes pg ?s1)" exampleTypes pg] pp
    by (simp add: exampleStmt_def namedValue_def exampleTypes_def exampleTransform_def)
  have c: "opt_queryValues (generatorOptions exampleTypes postgres ?s) ! 2 = ''sql.array(params.tags)''"
    using queryValues_transform_guarded [of 2 ?s "namedValue ''tags'' 1007" "''params.tags''"
        "opt_queryValues (generatorOptions exampleTypes postgres ?s)" exampleTypes postgres] np
    by (simp add: exampleStmt_def namedValue_def exampleTypes_def exampleTransform_def)
  show ?thesis using a b c by blast
qed

subsection \<open>Order of the pipeline's stages\<close>










subsection \<open>Clearing the caches\<close>

lemma clearCache_resolves:
  "typeClient (getTransforms (types clients)) (Clients.postgres clients) w = (Resolved t, w') \<Longrightarrow>
   clearCache typeClient clients w = (Resolved (clients\<lparr>types := t\<rparr>), w')"
  by (simp add: clearCache_def Task_map_def)

lemma clearCache_rejects:
  "typeClient (getTransforms (types clients)) (Clients.postgres clients) w = (Rejected x, w') \<Longrightarrow>
   clearCache typeClient clients w = (Rejected x, w')"
  by (simp add: clearCache_def Task_map_def)

text \<open>
  C5 (as amended). clearCache builds a new type client, by the constructor run on the
  transform table of the old type client and on the same connection, in the world as it
  is when clearCache runs; the connection and the schema client of the returned clients
  are those of the argument, unchanged, whatever the schema client has cached.
\<close>

theorem clearCache_recreates_type_client_only:
  "clearCache typeClient clients w = (Resolved clients', w') \<Longrightarrow>
   Clients.postgres clients' = Clients.postgres clients \<and>
   schema clients' = schema clients \<and>
   typeClient (getTransforms (types clients)) (Clients.postgres clients) w =
     (Resolved (types clients'), w')"
  by (auto simp: clearCache_def Task_map_def split: prod.splits outcome.splits)

theorem clearCache_recreates_type_client_only_witness:
  "clearCache exampleTypeClient exampleClients [] =
     (Resolved (exampleClients\<lparr>types := exampleTypes\<lparr>getTransforms := [(600, exampleTransform)],
                  getTransform := map_of [(600, exampleTransform)]\<rparr>\<rparr>), [''typeClient''])
   \<and> schema (exampleClients\<lparr>types := exampleTypes\<lparr>getTransforms := [(600, exampleTransform)],
                  getTransform := map_of [(600, exampleTransform)]\<rparr>\<rparr>) = schema exampleClients
   \<and> exampleTypeClient (getTransforms (types exampleClients)) (Clients.postgres exampleClients) [] =
     (Resolved (exampleTypes\<lparr>getTransforms := [(600, exampleTransform)],
                  getTransform := map_of [(600, exampleTransform)]\<rparr>), [''typeClient''])"
proof -
  let ?c = "exampleClients\<lparr>types := exampleTypes\<lparr>getTransforms := [(600, exampleTransform)],
                  getTransform := map_of [(600, exampleTransform)]\<rparr>\<rparr>"
  have r: "clearCache exampleTypeClient exampleClients [] = (Resolved ?c, [''typeClient''])"
    by (simp add: clearCache_def Task_map_def exampleTypeClient_def exampleClients_def
          exampleTypes_def)
  from clearCache_recreates_type_client_only [OF r]
  have "schema ?c = schema exampleClients"
    and "exampleTypeClient (getTransforms (types exampleClients))
          (Clients.postgres exampleClients) [] = (Resolved (types ?c), [''typeClient''])"
    by blast+
  then show ?thesis using r by simp
qed

text \<open>
  As the specification states it, C5 fails for the schema cache: after clearCache the
  schema client still holds the facts it had cached, and is not the empty-cached client
  that \<open>schemaClient\<close> makes for the connection.
\<close>

theorem clearCache_keeps_schema_cache:
  "map_outcome (\<lambda>c. tableCache (schema c)) (fst (clearCache exampleTypeClient exampleClients [])) =
     Resolved [((''public'', ''person''), [(''name'', \<lparr>notNull = True, hasDefault = False\<rparr>)])]
   \<and> map_outcome schema (fst (clearCache exampleTypeClient exampleClients [])) \<noteq>
     Resolved (schemaClient (Clients.postgres exampleClients))"
  by (simp add: clearCache_def Task_map_def exampleTypeClient_def exampleClients_def
        schemaClient_def)

subsection \<open>Composition of warnings\<close>

lemma analyse_warnings:
  "warnings (analyse check t) = concat (map (\<lambda>e. warnings (check e)) (subExpressions t))"
  by (induction t) (simp_all add: Warn_map_def Warn_combine_def)

lemma analyse_payload:
  "subExpressions (payload (analyse check t)) = map (\<lambda>e. payload (check e)) (subExpressions t)"
  by (induction t) (simp_all add: Warn_map_def Warn_combine_def)

text \<open>
  C8. Combining two Warn values gives the diagnostics of the first followed by those of
  the second, and the combination is associative: the diagnostics of three values
  combined are those of the first, then the second, then the third, however the
  combinations are nested, and with pairing as the value function the two nestings
  differ only by the re-association of the value. \<open>pure\<close> has no diagnostics and \<open>map\<close>
  keeps them. The analysis of a syntax tree gives the diagnostics of its sub-expressions
  in their left-to-right order in the source, each sub-expression's own diagnostics
  together: for two sub-expressions, those of the first and then those of the second.
  Two trees with the same sub-expressions in the same source order, however they are
  nested, give the same diagnostics, and the checked values come in source order too.
  Splitting returns the value and the diagnostics unchanged.
\<close>

theorem Warn_combine_assoc_ordered:
  "warnings (Warn_combine f a b) = warnings a @ warnings b
   \<and> warnings (Warn_combine g (Warn_combine f a b) c) = warnings a @ warnings b @ warnings c
   \<and> warnings (Warn_combine f' a (Warn_combine g' b c)) = warnings a @ warnings b @ warnings c
   \<and> Warn_map (\<lambda>((x, y), z). (x, (y, z))) (Warn_combine Pair (Warn_combine Pair a b) c) =
       Warn_combine Pair a (Warn_combine Pair b c)
   \<and> warnings (Warn_pure v) = []
   \<and> warnings (Warn_map h a) = warnings a
   \<and> Warn_split (Warn v ds) = (v, ds)
   \<and> Warn_split a = (payload a, warnings a)
   \<and> warnings (analyse check t) = concat (map (\<lambda>e. warnings (check e)) (subExpressions t))
   \<and> warnings (analyse check (Parts (Expr e1) (Expr e2))) = warnings (check e1) @ warnings (check e2)
   \<and> (subExpressions t' = subExpressions t \<longrightarrow>
        warnings (analyse check t') = warnings (analyse check t))
   \<and> subExpressions (payload (analyse check t)) =
        map (\<lambda>e. payload (check e)) (subExpressions t)
   \<and> Warn_split (analyse check t) =
        (payload (analyse check t),
         concat (map (\<lambda>e. warnings (check e)) (subExpressions t)))"
proof -
  have 1: "warnings (Warn_combine f a b) = warnings a @ warnings b
   \<and> warnings (Warn_combine g (Warn_combine f a b) c) = warnings a @ warnings b @ warnings c
   \<and> warnings (Warn_combine f' a (Warn_combine g' b c)) = warnings a @ warnings b @ warnings c
   \<and> Warn_map (\<lambda>((x, y), z). (x, (y, z))) (Warn_combine Pair (Warn_combine Pair a b) c) =
       Warn_combine Pair a (Warn_combine Pair b c)
   \<and> warnings (Warn_pure v) = []
   \<and> warnings (Warn_map h a) = warnings a
   \<and> Warn_split (Warn v ds) = (v, ds)
   \<and> Warn_split a = (payload a, warnings a)"
    by (simp add: Warn_combine_def Warn_map_def Warn_pure_def Warn_split_def)
  have 2: "warnings (analyse check (Parts (Expr e1) (Expr e2))) =
      warnings (check e1) @ warnings (check e2)"
    by (simp add: Warn_combine_def Warn_map_def)
  have 3: "subExpressions t' = subExpressions t \<longrightarrow>
      warnings (analyse check t') = warnings (analyse check t)"
    by (simp add: analyse_warnings)
  have 4: "Warn_split (analyse check t) =
      (payload (analyse check t), concat (map (\<lambda>e. warnings (check e)) (subExpressions t)))"
    by (simp add: Warn_split_def analyse_warnings)
  show ?thesis
    using 1 2 3 4 analyse_warnings [of check t] analyse_payload [of check t]
    by (simp only: simp_thms)
qed

theorem Warn_combine_assoc_ordered_witness:
  "warnings (analyse exampleCheck
      (Parts (Parts (Expr ''x'') (Expr ''a'')) (Parts (Expr ''b'') (Expr ''y'')))) =
     [''Cannot resolve x'', ''Cannot resolve y'']
   \<and> warnings (analyse exampleCheck
      (Parts (Expr ''x'') (Parts (Expr ''a'') (Parts (Expr ''b'') (Expr ''y''))))) =
     warnings (analyse exampleCheck
      (Parts (Parts (Expr ''x'') (Expr ''a'')) (Parts (Expr ''b'') (Expr ''y''))))"
proof -
  let ?t = "Parts (Parts (Expr ''x'') (Expr ''a'')) (Parts (Expr ''b'') (Expr ''y''))"
  let ?t' = "Parts (Expr ''x'') (Parts (Expr ''a'') (Parts (Expr ''b'') (Expr ''y'')))"
  note w = Warn_combine_assoc_ordered [where check = exampleCheck and t = ?t and t' = ?t']
  note w9 = w [THEN conjunct2, THEN conjunct2, THEN conjunct2, THEN conjunct2, THEN conjunct2,
      THEN conjunct2, THEN conjunct2, THEN conjunct2, THEN conjunct1]
    and w11 = w [THEN conjunct2, THEN conjunct2, THEN conjunct2, THEN conjunct2, THEN conjunct2,
      THEN conjunct2, THEN conjunct2, THEN conjunct2, THEN conjunct2, THEN conjunct2,
      THEN conjunct1]
  have "warnings (analyse exampleCheck ?t) =
      concat (map (\<lambda>e. warnings (exampleCheck e)) (subExpressions ?t))"
    by (rule w9)
  then have a: "warnings (analyse exampleCheck ?t) = [''Cannot resolve x'', ''Cannot resolve y'']"
    by (simp add: exampleCheck_def)
  have "subExpressions ?t' = subExpressions ?t" by simp
  moreover have "subExpressions ?t' = subExpressions ?t \<longrightarrow>
      warnings (analyse exampleCheck ?t') = warnings (analyse exampleCheck ?t)"
    by (rule w11)
  ultimately have b: "warnings (analyse exampleCheck ?t') = warnings (analyse exampleCheck ?t)"
    by blast
  show ?thesis using a b by blast
qed

lemma Warn_combine_example:
  "Warn_split (Warn_combine Pair (Warn (1::nat) [''first'']) (Warn (2::nat) [''second''])) =
     ((1, 2), [''first'', ''second''])"
  by (simp add: Warn_combine_def Warn_split_def)

subsection \<open>Numbering of named parameters\<close>

lemma indexOf_append: "x \<in> set xs \<Longrightarrow> indexOf x (xs @ ys) = indexOf x xs"
  by (induction xs) auto

lemma indexOf_nth: "x \<in> set xs \<Longrightarrow> indexOf x xs < length xs \<and> xs ! indexOf x xs = x"
  by (induction xs) auto

lemma paramOccurrences_simps:
  "paramOccurrences [] = []"
  "paramOccurrences (Ch c # ts) = paramOccurrences ts"
  "paramOccurrences (Param n # ts) = n # paramOccurrences ts"
  by (simp_all add: paramOccurrences_def)

lemma number_spec:
  "number ts ns0 = (s, ns) \<Longrightarrow>
   ns = foldl (\<lambda>acc n. if n \<in> set acc then acc else acc @ [n]) ns0 (paramOccurrences ts) \<and>
   (\<exists>ext. ns = ns0 @ ext) \<and>
   set (paramOccurrences ts) \<subseteq> set ns \<and>
   s = concat (map (render ns) ts)"
proof (induction ts arbitrary: ns0 s ns)
  case Nil
  then show ?case by (simp add: paramOccurrences_simps)
next
  case (Cons t ts)
  show ?case
  proof (cases t)
    case (Ch c)
    obtain s' where n: "number ts ns0 = (s', ns)" and s: "s = c # s'"
      using Cons.prems Ch by (auto split: prod.splits)
    note IH = Cons.IH[OF n]
    have "s' = concat (map (render ns) ts)" using IH by blast
    then have "s = concat (map (render ns) (t # ts))"
      using s Ch by (simp add: render_def)
    moreover have "paramOccurrences (t # ts) = paramOccurrences ts"
      using Ch by (simp add: paramOccurrences_simps)
    moreover have "ns = foldl (\<lambda>acc n. if n \<in> set acc then acc else acc @ [n]) ns0
        (paramOccurrences ts)" "\<exists>ext. ns = ns0 @ ext" "set (paramOccurrences ts) \<subseteq> set ns"
      using IH by blast+
    ultimately show ?thesis by (simp only: simp_thms)
  next
    case (Param n)
    let ?names' = "if n \<in> set ns0 then ns0 else ns0 @ [n]"
    obtain s' where nm: "number ts ?names' = (s', ns)"
      and s: "s = (''$'' @ string_of_nat (indexOf n ?names' + 1)) @ s'"
      using Cons.prems Param by (auto simp: Let_def split: prod.splits)
    note IH = Cons.IH[OF nm]
    from IH obtain ext where ext: "ns = ?names' @ ext" by blast
    have mem: "n \<in> set ?names'" by simp
    have idx: "indexOf n ns = indexOf n ?names'"
      unfolding ext using mem by (rule indexOf_append)
    have pre: "\<exists>ext'. ns = ns0 @ ext'"
    proof (cases "n \<in> set ns0")
      case True
      then show ?thesis using ext by simp
    next
      case False
      then have "ns = ns0 @ ([n] @ ext)" using ext by simp
      then show ?thesis by blast
    qed
    have nin: "n \<in> set ns" using ext mem by (metis Un_iff set_append)
    have ih1: "ns = foldl (\<lambda>acc n. if n \<in> set acc then acc else acc @ [n]) ?names'
        (paramOccurrences ts)"
      and ih3: "set (paramOccurrences ts) \<subseteq> set ns"
      and ih4: "s' = concat (map (render ns) ts)"
      using IH by blast+
    have occ: "paramOccurrences (t # ts) = n # paramOccurrences ts"
      using Param by (simp add: paramOccurrences_simps)
    have fold: "ns = foldl (\<lambda>acc n. if n \<in> set acc then acc else acc @ [n]) ns0
        (paramOccurrences (t # ts))"
      unfolding occ using ih1 by simp
    have sub: "set (paramOccurrences (t # ts)) \<subseteq> set ns"
      unfolding occ using ih3 nin by simp
    have "render ns t = ''$'' @ string_of_nat (indexOf n ns + 1)"
      unfolding Param render_def by simp
    then have "render ns t = ''$'' @ string_of_nat (indexOf n ?names' + 1)"
      by (simp only: idx)
    then have tx: "s = concat (map (render ns) (t # ts))"
      using s ih4 by simp
    show ?thesis using fold pre sub tx by blast
  qed
qed

lemma first_occurrences:
  "foldl (\<lambda>acc n. if n \<in> set acc then acc else acc @ [n]) [] xs = rev (remdups (rev xs))"
proof (induction xs rule: rev_induct)
  case Nil
  then show ?case by simp
next
  case (snoc x xs)
  have "set (rev (remdups (rev xs))) = set xs" by simp
  then show ?case using snoc.IH by simp
qed

text \<open>
  C4. When preprocessing succeeds, the names of the result are the distinct names of the
  placeholder occurrences, in the order of their first occurrence, so their number is
  the number of distinct names, not of occurrences; the SQL of the result is the scanned
  text with every occurrence of a name replaced by the dollar sign and the position of
  that name among the result's names, counted from one: the same placeholder at every
  occurrence of one name, and the name at that position is the occurrence's name.
\<close>

theorem preprocessSQL_one_slot_per_name:
  assumes "preprocessSQL text = Inr r"
  shows "\<exists>ts. scan Normal text = Inr ts \<and>
      paramNames r = rev (remdups (rev (paramOccurrences ts))) \<and>
      distinct (paramNames r) \<and>
      length (paramNames r) = card (set (paramOccurrences ts)) \<and>
      Preprocessed.sql r = concat (map (render (paramNames r)) ts) \<and>
      (\<forall>n \<in> set (paramOccurrences ts).
         indexOf n (paramNames r) < length (paramNames r) \<and>
         paramNames r ! indexOf n (paramNames r) = n)"
proof -
  obtain ts where sc: "scan Normal text = Inr ts"
    using assms by (cases "scan Normal text") (simp_all add: preprocessSQL_def)
  obtain s ns where nm: "number ts [] = (s, ns)"
    by (cases "number ts []")
  have r: "r = \<lparr>Preprocessed.sql = s, paramNames = ns\<rparr>"
    using assms sc nm by (simp add: preprocessSQL_def)
  note sp = number_spec[OF nm]
  have fnames: "ns = rev (remdups (rev (paramOccurrences ts)))"
    using sp first_occurrences[of "paramOccurrences ts"] by simp
  have fdist: "distinct ns" unfolding fnames by simp
  have fsets: "set ns = set (paramOccurrences ts)" unfolding fnames by simp
  have flen: "length ns = card (set (paramOccurrences ts))"
    using fdist fsets by (metis distinct_card)
  have ftext: "s = concat (map (render ns) ts)" using sp by blast
  have fpos: "\<forall>n \<in> set (paramOccurrences ts). indexOf n ns < length ns \<and> ns ! indexOf n ns = n"
    using fsets indexOf_nth[of _ ns] by blast
  show ?thesis
    unfolding r using sc fnames fdist flen ftext fpos by simp
qed

theorem preprocessSQL_one_slot_per_name_witness:
  "preprocessSQL ''a = :id OR b = :id'' =
     Inr \<lparr>Preprocessed.sql = ''a = $1 OR b = $1'', paramNames = [''id'']\<rparr>
   \<and> (\<exists>ts. scan Normal ''a = :id OR b = :id'' = Inr ts \<and>
          length [''id''] = card (set (paramOccurrences ts)) \<and>
          paramOccurrences ts = [''id'', ''id''])"
proof -
  have sc: "scan Normal ''a = :id OR b = :id'' =
      Inr [Ch CHR ''a'', Ch CHR '' '', Ch CHR ''='', Ch CHR '' '', Param ''id'', Ch CHR '' '',
           Ch CHR ''O'', Ch CHR ''R'', Ch CHR '' '', Ch CHR ''b'', Ch CHR '' '', Ch CHR ''='',
           Ch CHR '' '', Param ''id'']"
    by (simp add: emit_def startsWith_def isIdentStart_def isIdentChar_def isDigit_def)
  have e: "preprocessSQL ''a = :id OR b = :id'' =
      Inr \<lparr>Preprocessed.sql = ''a = $1 OR b = $1'', paramNames = [''id'']\<rparr>"
    unfolding preprocessSQL_def sc
    by (simp add: string_of_nat.simps digitChar_def)
  from preprocessSQL_one_slot_per_name [OF e]
  obtain ts where ts: "scan Normal ''a = :id OR b = :id'' = Inr ts"
    and len: "length (paramNames \<lparr>Preprocessed.sql = ''a = $1 OR b = $1'', paramNames = [''id'']\<rparr>) =
      card (set (paramOccurrences ts))"
    by blast
  have "paramOccurrences ts = [''id'', ''id'']"
    using ts unfolding sc by (auto simp: paramOccurrences_simps)
  then show ?thesis using e ts len by auto
qed

lemma preprocessSQL_examples:
  "preprocessSQL ''x = :a AND y = :b AND z = :a'' =
     Inr \<lparr>Preprocessed.sql = ''x = $1 AND y = $2 AND z = $1'', paramNames = [''a'', ''b'']\<rparr>"
  "preprocessSQL ''':a' -- :b'' =
     Inr \<lparr>Preprocessed.sql = ''':a' -- :b'', paramNames = []\<rparr>"
  "preprocessSQL ''x = :1'' = Inl ''Malformed parameter name''"
  by (simp_all add: preprocessSQL_def emit_def startsWith_def isIdentStart_def isIdentChar_def
        isDigit_def string_of_nat.simps digitChar_def)

subsection \<open>Transform configuration\<close>

lemma map_of_Map_set: "map_of (Map_set k v m) = (map_of m)(k \<mapsto> v)"
  by (induction m) auto

lemma getTransforms_loop_result:
  "getTransforms_loop parse es m0 =
     (if \<forall>(key, val) \<in> set es. validEntry val
      then Inr (foldl (\<lambda>m (key, val). Map_set (parse key) val m) m0 es)
      else Inl ''Invalid transforms structure'')"
proof (induction es arbitrary: m0)
  case Nil
  then show ?case by simp
next
  case (Cons e es)
  obtain key val where e: "e = (key, val)" by (cases e)
  show ?case unfolding e using Cons.IH by simp
qed

lemma map_of_foldl_Map_set:
  "map_of (foldl (\<lambda>m (key, val). Map_set (parse key) val m) m0 es) =
     map_of m0 ++ map_of (rev (map (\<lambda>(key, val). (parse key, val)) es))"
proof (induction es arbitrary: m0)
  case Nil
  then show ?case by simp
next
  case (Cons e es)
  obtain key val where e: "e = (key, val)" by (cases e)
  have "map_of (foldl (\<lambda>m (key, val). Map_set (parse key) val m) m0 (e # es)) =
        map_of (Map_set (parse key) val m0) ++
          map_of (rev (map (\<lambda>(key, val). (parse key, val)) es))"
    unfolding e using Cons.IH[of "Map_set (parse key) val m0"] by simp
  also have "\<dots> = map_of m0 ++ ([parse key \<mapsto> val] ++
          map_of (rev (map (\<lambda>(key, val). (parse key, val)) es)))"
    by (simp add: map_of_Map_set)
  also have "\<dots> = map_of m0 ++ map_of (rev (map (\<lambda>(key, val). (parse key, val)) (e # es)))"
    unfolding e by simp
  finally show ?case .
qed

lemma map_of_rev_last_wins:
  "i < length l \<Longrightarrow> (\<forall>j. i < j \<and> j < length l \<longrightarrow> fst (l ! j) \<noteq> fst (l ! i)) \<Longrightarrow>
   map_of (rev l) (fst (l ! i)) = Some (snd (l ! i))"
proof (induction l rule: rev_induct)
  case Nil
  then show ?case by simp
next
  case (snoc x l)
  show ?case
  proof (cases "i = length l")
    case True
    then show ?thesis by (cases x) simp
  next
    case False
    then have i: "i < length l" using snoc.prems(1) by simp
    have last: "fst x \<noteq> fst (l ! i)"
      using snoc.prems(2)[rule_format, of "length l"] i by (simp add: nth_append)
    have "\<forall>j. i < j \<and> j < length l \<longrightarrow> fst (l ! j) \<noteq> fst (l ! i)"
    proof (intro allI impI)
      fix j assume j: "i < j \<and> j < length l"
      then show "fst (l ! j) \<noteq> fst (l ! i)"
        using snoc.prems(2)[rule_format, of j] i by (simp add: nth_append)
    qed
    from snoc.IH[OF i this] have "map_of (rev l) (fst (l ! i)) = Some (snd (l ! i))" .
    then show ?thesis using last i by (cases x) (auto simp: nth_append)
  qed
qed

text \<open>
  C7 (as amended). For a parsed input other than \<open>null\<close>: getTransforms raises \<open>should be
  an object\<close> when the input is a boolean, a number or a string; for an object or an
  array it raises \<open>Invalid transforms structure\<close> exactly when some entry's value is not
  an object with a truthy \<open>tsType\<close> and a truthy \<open>serializeFunc\<close>; otherwise it returns the
  map built by setting, in enumeration order, the parsed key to the entry's value, so
  that of the keys parsed to one identifier the last one's value stays. Hence every key
  whose parsed identifier no later key shares has its entry with the supplied value.
\<close>

theorem getTransforms_cli_result:
  assumes "transforms \<noteq> JNull"
  shows
    "(\<not> typeofObject transforms \<longrightarrow>
        getTransforms_cli parse transforms =
          Inl ''Invalid transforms structure, should be an object'')
     \<and> (typeofObject transforms \<and> (\<exists>(key, val) \<in> set (forInEntries transforms). \<not> validEntry val) \<longrightarrow>
        getTransforms_cli parse transforms = Inl ''Invalid transforms structure'')
     \<and> (typeofObject transforms \<and> (\<forall>(key, val) \<in> set (forInEntries transforms). validEntry val) \<longrightarrow>
        (\<exists>m. getTransforms_cli parse transforms = Inr m \<and>
             map_of m =
               map_of (rev (map (\<lambda>(key, val). (parse key, val)) (forInEntries transforms))) \<and>
             (\<forall>i < length (forInEntries transforms).
                (\<forall>j. i < j \<and> j < length (forInEntries transforms) \<longrightarrow>
                     parse (fst (forInEntries transforms ! j)) \<noteq>
                     parse (fst (forInEntries transforms ! i))) \<longrightarrow>
                map_of m (parse (fst (forInEntries transforms ! i))) =
                  Some (snd (forInEntries transforms ! i)))))"
proof (intro conjI impI)
  assume "\<not> typeofObject transforms"
  then show "getTransforms_cli parse transforms =
      Inl ''Invalid transforms structure, should be an object''"
    by (simp add: getTransforms_cli_def)
next
  assume "typeofObject transforms \<and> (\<exists>(key, val) \<in> set (forInEntries transforms). \<not> validEntry val)"
  then show "getTransforms_cli parse transforms = Inl ''Invalid transforms structure''"
    by (auto simp: getTransforms_cli_def getTransforms_loop_result)
next
  let ?es = "forInEntries transforms"
  let ?l = "map (\<lambda>(key, val). (parse key, val)) ?es"
  let ?m = "foldl (\<lambda>m (key, val). Map_set (parse key) val m) [] ?es"
  assume a: "typeofObject transforms \<and> (\<forall>(key, val) \<in> set ?es. validEntry val)"
  then have r: "getTransforms_cli parse transforms = Inr ?m"
    by (simp add: getTransforms_cli_def getTransforms_loop_result)
  have m: "map_of ?m = map_of (rev ?l)"
    using map_of_foldl_Map_set[of parse "[]" ?es] by simp
  have k: "\<forall>i < length ?es.
      (\<forall>j. i < j \<and> j < length ?es \<longrightarrow> parse (fst (?es ! j)) \<noteq> parse (fst (?es ! i))) \<longrightarrow>
      map_of ?m (parse (fst (?es ! i))) = Some (snd (?es ! i))"
  proof (intro allI impI)
    fix i
    assume i: "i < length ?es"
      and d: "\<forall>j. i < j \<and> j < length ?es \<longrightarrow> parse (fst (?es ! j)) \<noteq> parse (fst (?es ! i))"
    have f: "\<And>n. n < length ?es \<Longrightarrow> fst (?l ! n) = parse (fst (?es ! n))"
      by (simp add: case_prod_beta)
    have s: "snd (?l ! i) = snd (?es ! i)"
      using i by (simp add: case_prod_beta)
    have "\<forall>j. i < j \<and> j < length ?l \<longrightarrow> fst (?l ! j) \<noteq> fst (?l ! i)"
      using d i f by simp
    moreover have "i < length ?l" using i by simp
    ultimately have "map_of (rev ?l) (fst (?l ! i)) = Some (snd (?l ! i))"
      by (rule map_of_rev_last_wins[rotated])
    then show "map_of ?m (parse (fst (?es ! i))) = Some (snd (?es ! i))"
      unfolding m using f[OF i] s by simp
  qed
  show "\<exists>m. getTransforms_cli parse transforms = Inr m \<and>
             map_of m = map_of (rev ?l) \<and>
             (\<forall>i < length ?es.
                (\<forall>j. i < j \<and> j < length ?es \<longrightarrow>
                     parse (fst (?es ! j)) \<noteq> parse (fst (?es ! i))) \<longrightarrow>
                map_of m (parse (fst (?es ! i))) = Some (snd (?es ! i)))"
    using r m k by blast
qed

lemma parseInt_examples:
  "parseInt ''600'' = Some 600"
  "parseInt ''1007'' = Some 1007"
  "parseInt ''1'' = Some 1"
  "parseInt ''01'' = Some 1"
  "parseInt ''0x10'' = Some 16"
  "parseInt '' -7px'' = Some (- 7)"
  "parseInt ''point'' = None"
  by (simp_all add: parseInt_def isWhiteSpace_def digitValue_def)

theorem getTransforms_cli_result_witness:
  "getTransforms_cli parseInt (JStr ''point'') =
     Inl ''Invalid transforms structure, should be an object''
   \<and> getTransforms_cli parseInt (JObj [(''600'', JObj [(''tsType'', JStr ''Point'')])]) =
     Inl ''Invalid transforms structure''
   \<and> (\<exists>m. getTransforms_cli parseInt
            (JObj [(''600'', transformEntry ''Point'' ''serializePoint''),
                   (''1007'', transformEntry ''number[]'' ''serializeArray'')]) = Inr m
          \<and> map_of m (Some 600) = Some (transformEntry ''Point'' ''serializePoint''))"
proof -
  let ?bad = "JObj [(''600'', JObj [(''tsType'', JStr ''Point'')])]"
  let ?good = "JObj [(''600'', transformEntry ''Point'' ''serializePoint''),
                     (''1007'', transformEntry ''number[]'' ''serializeArray'')]"
  have a: "getTransforms_cli parseInt (JStr ''point'') =
      Inl ''Invalid transforms structure, should be an object''"
    using getTransforms_cli_result [of "JStr ''point''" parseInt] by simp
  have "typeofObject ?bad \<and> (\<exists>(key, val) \<in> set (forInEntries ?bad). \<not> validEntry val)"
    by (simp add: validEntry_def)
  then have b: "getTransforms_cli parseInt ?bad = Inl ''Invalid transforms structure''"
    using getTransforms_cli_result [of ?bad parseInt] by blast
  have v: "typeofObject ?good \<and> (\<forall>(key, val) \<in> set (forInEntries ?good). validEntry val)"
    by (simp add: validEntry_def transformEntry_def)
  have d: "\<forall>j. 0 < j \<and> j < length (forInEntries ?good) \<longrightarrow>
      parseInt (fst (forInEntries ?good ! j)) \<noteq> parseInt (fst (forInEntries ?good ! 0))"
  proof (intro allI impI)
    fix j assume "0 < j \<and> j < length (forInEntries ?good)"
    then have "j = 1" by simp
    then show "parseInt (fst (forInEntries ?good ! j)) \<noteq> parseInt (fst (forInEntries ?good ! 0))"
      by (simp add: parseInt_examples)
  qed
  have "?good \<noteq> JNull" by simp
  from getTransforms_cli_result [OF this, of parseInt] v
  obtain m where m: "getTransforms_cli parseInt ?good = Inr m"
    and k: "\<forall>i < length (forInEntries ?good).
      (\<forall>j. i < j \<and> j < length (forInEntries ?good) \<longrightarrow>
           parseInt (fst (forInEntries ?good ! j)) \<noteq> parseInt (fst (forInEntries ?good ! i))) \<longrightarrow>
      map_of m (parseInt (fst (forInEntries ?good ! i))) = Some (snd (forInEntries ?good ! i))"
    by blast
  have "0 < length (forInEntries ?good)" by simp
  with k d have "map_of m (parseInt (fst (forInEntries ?good ! 0))) =
      Some (snd (forInEntries ?good ! 0))" by blast
  then have c: "map_of m (Some 600) = Some (transformEntry ''Point'' ''serializePoint'')"
    by (simp add: parseInt_examples)
  show ?thesis using a b m c by blast
qed

text \<open>
  As the specification states it, C7 fails when two keys are parsed to the same identifier: of the keys
  \<open>1\<close> and \<open>01\<close>, enumerated in this order, only the value of \<open>01\<close> is in the map, and the
  entry of key \<open>1\<close> with the value supplied for it is not.
\<close>

theorem getTransforms_cli_key_collision:
  "getTransforms_cli parseInt
     (JObj [(''1'', transformEntry ''A'' ''serializeA''),
            (''01'', transformEntry ''B'' ''serializeB'')]) =
     Inr [(Some 1, transformEntry ''B'' ''serializeB'')]
   \<and> map_of [(Some 1, transformEntry ''B'' ''serializeB'')] (parseInt ''1'') \<noteq>
     Some (transformEntry ''A'' ''serializeA'')"
  by (simp add: getTransforms_cli_def validEntry_def transformEntry_def parseInt_examples)

text \<open>
  For \<open>null\<close> the \<open>typeof\<close> test passes and the loop has nothing to enumerate: the result
  is the empty map.
\<close>

lemma getTransforms_cli_null: "getTransforms_cli parse JNull = Inr []"
  by (simp add: getTransforms_cli_def)

lemma getTransforms_cli_array:
  "getTransforms_cli parseInt (JArr [transformEntry ''A'' ''serializeA'']) =
     Inr [(Some 0, transformEntry ''A'' ''serializeA'')]"
  by (simp add: getTransforms_cli_def validEntry_def transformEntry_def parseInt_def
        isWhiteSpace_def digitValue_def string_of_nat.simps digitChar_def)

subsection \<open>The catalog attribute query\<close>

lemma concat_if_none:
  "\<forall>x \<in> set xs. \<not> P x \<Longrightarrow> concat (map (\<lambda>x. if P x then ys x else []) xs) = []"
  by (induction xs) simp_all

lemma concat_if_unique:
  assumes "distinct (map f xs)" and "\<And>x. P x \<Longrightarrow> f x = k"
  shows "concat (map (\<lambda>x. if P x then (if Q x then [r] else []) else []) xs) =
     (if \<exists>x \<in> set xs. P x \<and> Q x then [r] else [])"
  using assms(1)
proof (induction xs)
  case Nil
  then show ?case by simp
next
  case (Cons x xs)
  have d: "distinct (map f xs)" and nx: "f x \<notin> f ` set xs"
    using Cons.prems by simp_all
  note IH = Cons.IH[OF d]
  show ?case
  proof (cases "P x")
    case True
    have np: "\<forall>y \<in> set xs. \<not> P y"
    proof
      fix y assume y: "y \<in> set xs"
      show "\<not> P y"
      proof
        assume "P y"
        then have "f y = f x" using assms(2)[of y] assms(2)[OF True] by simp
        then show False using nx y by (metis imageI)
      qed
    qed
    then have rest: "concat (map (\<lambda>x. if P x then (if Q x then [r] else []) else []) xs) = []"
      by (rule concat_if_none)
    have "\<not> (\<exists>y \<in> set xs. P y \<and> Q y)"
      using np by blast
    moreover have "(\<exists>y \<in> set (x # xs). P y \<and> Q y) =
        (P x \<and> Q x \<or> (\<exists>y \<in> set xs. P y \<and> Q y))"
      by simp
    ultimately have ex: "(\<exists>y \<in> set (x # xs). P y \<and> Q y) = Q x"
      using True by blast
    show ?thesis unfolding ex using True rest by (simp del: concat_eq_Nil_conv)
  next
    case False
    have "(\<exists>y \<in> set (x # xs). P y \<and> Q y) =
        (P x \<and> Q x \<or> (\<exists>y \<in> set xs. P y \<and> Q y))"
      by simp
    then have ex: "(\<exists>y \<in> set (x # xs). P y \<and> Q y) = (\<exists>y \<in> set xs. P y \<and> Q y)"
      using False by blast
    show ?thesis unfolding ex using False IH by (simp del: concat_eq_Nil_conv)
  qed
qed

lemma namespace_join:
  assumes "distinct (map pg_namespace.oid (pg_namespace db))"
  shows "concat (map (\<lambda>nsp. if pg_namespace.oid nsp = relnamespace cls
                      then (if (relkind cls = CHR ''r'' \<or> relkind cls = CHR ''v'') \<and>
                               nspname nsp = s \<and> relname cls = t then [r] else [])
                      else []) (pg_namespace db)) =
         (if relationMatches db s t cls then [r] else [])"
proof -
  have u: "concat (map (\<lambda>nsp. if pg_namespace.oid nsp = relnamespace cls
                      then (if (relkind cls = CHR ''r'' \<or> relkind cls = CHR ''v'') \<and>
                               nspname nsp = s \<and> relname cls = t then [r] else [])
                      else []) (pg_namespace db)) =
        (if \<exists>nsp \<in> set (pg_namespace db). pg_namespace.oid nsp = relnamespace cls \<and>
              ((relkind cls = CHR ''r'' \<or> relkind cls = CHR ''v'') \<and>
               nspname nsp = s \<and> relname cls = t) then [r] else [])"
    by (rule concat_if_unique[OF assms, of "\<lambda>nsp. pg_namespace.oid nsp = relnamespace cls"
          "relnamespace cls"])
  have m: "(\<exists>nsp \<in> set (pg_namespace db). pg_namespace.oid nsp = relnamespace cls \<and>
              ((relkind cls = CHR ''r'' \<or> relkind cls = CHR ''v'') \<and>
               nspname nsp = s \<and> relname cls = t)) = relationMatches db s t cls"
    unfolding relationMatches_def by blast
  show ?thesis unfolding u m ..
qed

lemma class_join:
  assumes "distinct (map pg_class.oid (pg_class db))"
    and "distinct (map pg_namespace.oid (pg_namespace db))"
  shows "concat (map (\<lambda>cls. if attrelid attr = pg_class.oid cls
                      then concat (map (\<lambda>nsp. if pg_namespace.oid nsp = relnamespace cls
                             then (if (relkind cls = CHR ''r'' \<or> relkind cls = CHR ''v'') \<and>
                                      nspname nsp = s \<and> relname cls = t then [r] else [])
                             else []) (pg_namespace db))
                      else []) (pg_class db)) =
         (if \<exists>cls \<in> set (pg_class db). attrelid attr = pg_class.oid cls \<and> relationMatches db s t cls
          then [r] else [])"
  unfolding namespace_join[OF assms(2)]
  by (rule concat_if_unique[OF assms(1), of "\<lambda>cls. attrelid attr = pg_class.oid cls" "attrelid attr"]) (rule sym)

lemma concat_map_filter:
  "concat (map (\<lambda>x. if P x then [g x] else []) xs) = map g (filter P xs)"
  by (induction xs) simp_all

lemma tableColumns_unique_oids:
  assumes "distinct (map pg_class.oid (pg_class db))"
    and "distinct (map pg_namespace.oid (pg_namespace db))"
  shows "tableColumns db s t =
     sort_key attnum
       (map AttributeRow.truncate
          (filter (\<lambda>attr. \<exists>cls \<in> set (pg_class db).
                     attrelid attr = pg_class.oid cls \<and> relationMatches db s t cls)
             (pg_attribute db)))"
  unfolding tableColumns_def class_join[OF assms] concat_map_filter ..

lemma in_concat_map: "(r \<in> set (concat (map f xs))) = (\<exists>x \<in> set xs. r \<in> set (f x))"
  by auto

lemma in_set_if_nil: "(r \<in> set (if c then l else [])) = (c \<and> r \<in> set l)"
  by simp

lemma in_set_single: "(r \<in> set [a]) = (r = a)"
  by auto

lemma tableColumns_mem:
  "(r \<in> set (tableColumns db s t)) =
     (\<exists>attr \<in> set (pg_attribute db). \<exists>cls \<in> set (pg_class db).
        attrelid attr = pg_class.oid cls \<and>
        (\<exists>nsp \<in> set (pg_namespace db).
           pg_namespace.oid nsp = relnamespace cls \<and>
           ((relkind cls = CHR ''r'' \<or> relkind cls = CHR ''v'') \<and>
            nspname nsp = s \<and> relname cls = t) \<and>
           r = AttributeRow.truncate attr))"
  unfolding tableColumns_def set_sort in_concat_map in_set_if_nil in_set_single
  by (rule refl)

lemma tableColumns_set:
  "set (tableColumns db s t) =
     {AttributeRow.truncate attr | attr cls.
        attr \<in> set (pg_attribute db) \<and> cls \<in> set (pg_class db) \<and>
        attrelid attr = pg_class.oid cls \<and> relationMatches db s t cls}"
proof (rule set_eqI)
  fix r
  show "(r \<in> set (tableColumns db s t)) =
     (r \<in> {AttributeRow.truncate attr | attr cls.
        attr \<in> set (pg_attribute db) \<and> cls \<in> set (pg_class db) \<and>
        attrelid attr = pg_class.oid cls \<and> relationMatches db s t cls})"
    unfolding tableColumns_mem relationMatches_def mem_Collect_eq by blast
qed

lemma tableColumns_sorted: "sorted (map attnum (tableColumns db s t))"
  unfolding tableColumns_def by (rule sorted_sort_key)

text \<open>
  C6. For every schema name and table name the query returns rows sorted by \<open>attnum\<close> in
  ascending order; the rows are exactly the six selected columns of the attributes of
  the relations that match the schema and the name and are ordinary tables or views;
  the result is the empty list when no relation matches. Where the oids of the
  relations and of the namespaces are unique, as they are in the catalogs, every such
  attribute gives one row.
\<close>

theorem tableColumns_rows:
  "sorted (map attnum (tableColumns db s t))
   \<and> set (tableColumns db s t) =
       {AttributeRow.truncate attr | attr cls.
          attr \<in> set (pg_attribute db) \<and> cls \<in> set (pg_class db) \<and>
          attrelid attr = pg_class.oid cls \<and> relationMatches db s t cls}
   \<and> ((\<forall>cls \<in> set (pg_class db). \<not> relationMatches db s t cls) \<longrightarrow> tableColumns db s t = [])
   \<and> (distinct (map pg_class.oid (pg_class db)) \<and>
       distinct (map pg_namespace.oid (pg_namespace db)) \<longrightarrow>
       tableColumns db s t =
         sort_key attnum
           (map AttributeRow.truncate
              (filter (\<lambda>attr. \<exists>cls \<in> set (pg_class db).
                         attrelid attr = pg_class.oid cls \<and> relationMatches db s t cls)
                 (pg_attribute db))))"
proof -
  have e: "tableColumns db s t = []" if "\<forall>cls \<in> set (pg_class db). \<not> relationMatches db s t cls"
  proof -
    have "set (tableColumns db s t) = {}"
      unfolding tableColumns_set using that by blast
    then show ?thesis by simp
  qed
  show ?thesis
    using tableColumns_sorted[of db s t] tableColumns_set[of db s t] e
      tableColumns_unique_oids[of db s t]
    by blast
qed

theorem tableColumns_rows_witness:
  "tableColumns exampleCatalog ''public'' ''person'' =
     [\<lparr>attnum = 1, attname = ''id'', atttypid = 23, attnotnull = True, atthasdef = False,
       attisdropped = False\<rparr>,
      \<lparr>attnum = 2, attname = ''name'', atttypid = 25, attnotnull = False, atthasdef = False,
       attisdropped = False\<rparr>]
   \<and> tableColumns exampleCatalog ''public'' ''person_pkey'' = []
   \<and> tableColumns exampleCatalog ''pg_catalog'' ''person'' = []
   \<and> sorted (map attnum (tableColumns exampleCatalog ''public'' ''person''))"
proof -
  have d: "distinct (map pg_class.oid (pg_class exampleCatalog)) \<and>
      distinct (map pg_namespace.oid (pg_namespace exampleCatalog))"
    by (simp add: exampleCatalog_def)
  have m: "\<And>s t cls. relationMatches exampleCatalog s t cls =
      ((relkind cls = CHR ''r'' \<or> relkind cls = CHR ''v'') \<and> relname cls = t \<and>
       (relnamespace cls = 11 \<and> s = ''pg_catalog'' \<or> relnamespace cls = 2200 \<and> s = ''public''))"
    unfolding relationMatches_def by (auto simp: exampleCatalog_def)
  have "tableColumns exampleCatalog ''public'' ''person'' =
      sort_key attnum
        (map AttributeRow.truncate
           (filter (\<lambda>attr. \<exists>cls \<in> set (pg_class exampleCatalog).
                      attrelid attr = pg_class.oid cls \<and>
                      relationMatches exampleCatalog ''public'' ''person'' cls)
              (pg_attribute exampleCatalog)))"
    using tableColumns_rows [of exampleCatalog "''public''" "''person''"] d by blast
  then have a: "tableColumns exampleCatalog ''public'' ''person'' =
     [\<lparr>attnum = 1, attname = ''id'', atttypid = 23, attnotnull = True, atthasdef = False,
       attisdropped = False\<rparr>,
      \<lparr>attnum = 2, attname = ''name'', atttypid = 25, attnotnull = False, atthasdef = False,
       attisdropped = False\<rparr>]"
    unfolding m by (simp add: exampleCatalog_def attribute_def AttributeRow.truncate_def)
  have "\<forall>cls \<in> set (pg_class exampleCatalog).
      \<not> relationMatches exampleCatalog ''public'' ''person_pkey'' cls"
    unfolding m by (simp add: exampleCatalog_def)
  then have b: "tableColumns exampleCatalog ''public'' ''person_pkey'' = []"
    using tableColumns_rows [of exampleCatalog "''public''" "''person_pkey''"] by blast
  have "\<forall>cls \<in> set (pg_class exampleCatalog).
      \<not> relationMatches exampleCatalog ''pg_catalog'' ''person'' cls"
    unfolding m by (simp add: exampleCatalog_def)
  then have c: "tableColumns exampleCatalog ''pg_catalog'' ''person'' = []"
    using tableColumns_rows [of exampleCatalog "''pg_catalog''" "''person''"] by blast
  have e: "sorted (map attnum (tableColumns exampleCatalog ''public'' ''person''))"
    using tableColumns_rows [of exampleCatalog "''public''" "''person''"] by blast
  show ?thesis using a b c e by blast
qed


end
